theory Spec2Isabelle
  imports Complex_Main "HOL-Library.List_Lexorder" "HOL-Library.Product_Lexorder"
begin

section \<open>Exceptions as values\<close>

text \<open>
  Every exception that the analysed Python code (or the numpy, pandas and \<open>re\<close> calls it
  makes) can raise is a value of this type; a function that may raise returns
  \<open>error + 'a\<close> with \<open>Inl\<close> for the exception.
\<close>

datatype error = ValueError | IndexError | AttributeError | ReError

text \<open>Running a step that may raise and going on with its result.\<close>

definition propagate :: "error + 'a \<Rightarrow> ('a \<Rightarrow> error + 'b) \<Rightarrow> error + 'b" where
  "propagate m f = (case m of Inl e \<Rightarrow> Inl e | Inr x \<Rightarrow> f x)"

section \<open>Strings and regular expressions\<close>

text \<open>
  A Python \<open>str\<close> is a sequence of code points, so that \<open>len\<close> and slices count what
  Python counts; the texts of the source that are not ASCII are written as code points.
  Lists of code points are ordered lexicographically, as Python orders strings.
\<close>

type_synonym str = "nat list"

definition ascii :: "string \<Rightarrow> str" where
  "ascii s = map of_char s"

text \<open>\<open>sep.join(xs)\<close>.\<close>

fun str_join :: "str \<Rightarrow> str list \<Rightarrow> str" where
  "str_join sep [] = []"
| "str_join sep [x] = x"
| "str_join sep (x # y # ys) = x @ sep @ str_join sep (y # ys)"

text \<open>
  The \<open>re\<close> module is not part of the repository; it is a parameter of the model.
  \<open>rx pattern ignore_case\<close> is \<open>None\<close> when \<open>re.compile\<close> rejects the pattern
  (\<open>re.error\<close>), and otherwise the test whether the compiled pattern is found somewhere
  in a text (\<open>pattern.search(text) is not None\<close>).
\<close>

type_synonym regex_engine = "str \<Rightarrow> bool \<Rightarrow> (str \<Rightarrow> bool) option"

section \<open>The numpy and pandas primitives used by the analysers\<close>

text \<open>
  \<open>df.iloc[i]\<close>, the row at a position: a negative position counts from the end, and a
  position outside the table raises \<open>IndexError\<close>.
\<close>

definition iloc :: "'a list \<Rightarrow> int \<Rightarrow> error + 'a" where
  "iloc df i =
     (if 0 \<le> i \<and> i < int (length df) then Inr (df ! nat i)
      else if i < 0 \<and> - int (length df) \<le> i then Inr (df ! nat (int (length df) + i))
      else Inl IndexError)"

text \<open>
  Timestamps are Python floats; they are modelled by exact reals, so rounding of IEEE
  doubles is outside the model.

  \<open>np.arange(start, stop, step)\<close> has \<open>ceil((stop - start) / step)\<close> elements
  \<open>start + k * step\<close> (none when that number is not positive); with a zero step the
  length cannot be computed and the call raises.
\<close>

definition np_arange :: "real \<Rightarrow> real \<Rightarrow> real \<Rightarrow> error + real list" where
  "np_arange start stop step =
     (if step = 0 then Inl ValueError
      else Inr (map (\<lambda>k. start + real k * step) [0..<nat \<lceil>(stop - start) / step\<rceil>]))"

text \<open>
  \<open>bins.searchsorted(x, side='left')\<close>: on increasing edges, the number of edges
  strictly below \<open>x\<close>.
\<close>

definition searchsorted_left :: "real list \<Rightarrow> real \<Rightarrow> nat" where
  "searchsorted_left bins x = length (takeWhile (\<lambda>b. b < x) bins)"

text \<open>
  The label that \<open>pd.cut(x, bins, labels=False, include_lowest=True)\<close> (with the default
  \<open>right=True\<close>) gives one value: \<open>ids = searchsorted(x, side='left')\<close>, then
  \<open>ids[x == bins[0]] = 1\<close>, a value with \<open>ids == len(bins)\<close> or \<open>ids == 0\<close> is NaN
  (\<open>None\<close>), every other value gets \<open>ids - 1\<close>.
\<close>

definition cut_label :: "real list \<Rightarrow> real \<Rightarrow> nat option" where
  "cut_label bins x =
     (let ids = (if x = hd bins then 1 else searchsorted_left bins x)
      in if ids = length bins \<or> ids = 0 then None else Some (ids - 1))"

text \<open>
  \<open>pd.cut\<close> on a whole column. Edges that do not increase raise
  \<open>ValueError("bins must increase monotonically.")\<close>; an empty edge array raises at
  \<open>bins[0]\<close>.
\<close>

definition pd_cut :: "real list \<Rightarrow> real list \<Rightarrow> error + nat option list" where
  "pd_cut xs bins =
     (if \<not> sorted bins then Inl ValueError
      else if bins = [] then Inl IndexError
      else Inr (map (cut_label bins) xs))"

text \<open>
  \<open>np.percentile(a, q)\<close> and \<open>Series.quantile(q / 100)\<close> with the default linear
  interpolation: the virtual index \<open>q / 100 * (n - 1)\<close> into the sorted data,
  interpolated between its two neighbours. A percentile outside \<open>[0, 100]\<close> raises.
  Both call sites test for an empty table first, so the empty case (numpy answers
  \<open>nan\<close>) is never reached; it is an error here.
\<close>

definition np_percentile :: "nat list \<Rightarrow> real \<Rightarrow> error + real" where
  "np_percentile a q =
     (if q < 0 \<or> 100 < q \<or> a = [] then Inl ValueError
      else
        let s = sort a;
            idx = q / 100 * real (length a - 1);
            lo = nat \<lfloor>idx\<rfloor>;
            hi = min (lo + 1) (length a - 1);
            g = idx - real lo
        in Inr (real (s ! lo) + (real (s ! hi) - real (s ! lo)) * g))"

section \<open>Data model\<close>

text \<open>
  A row of the chat table. The \<open>message\<close> cell of a row may be missing (NaN), which is
  \<open>None\<close>.
\<close>

record comment =
  timestamp_sec :: real
  author :: str
  message :: "str option"

text \<open>A row of the table returned by \<open>bin_comments_by_time\<close>.\<close>

record time_bin =
  bin_start :: real
  bin_end :: real
  count :: nat
  comment_rate :: real

section \<open>CommentAnalyzer.bin_comments_by_time\<close>

text \<open>
  The keys of \<open>groupby('bin')\<close>: the labels that occur, NaN dropped, ascending.
\<close>

definition group_keys :: "nat option list \<Rightarrow> nat list" where
  "group_keys labels = sort (remdups (List.map_filter id labels))"

text \<open>
  The edges \<open>np.arange(np.floor(min_time), np.ceil(max_time) + bin_size_seconds,
  bin_size_seconds)\<close> of a non-empty timestamp column.
\<close>

definition bin_edges :: "real list \<Rightarrow> real \<Rightarrow> error + real list" where
  "bin_edges ts bin_size_seconds =
     (let min_time = Min (set ts); max_time = Max (set ts)
      in np_arange (real_of_int \<lfloor>min_time\<rfloor>)
           (real_of_int \<lceil>max_time\<rceil> + bin_size_seconds) bin_size_seconds)"

text \<open>
  \<open>groupby('bin').size()\<close>, the two \<open>apply\<close> calls that look the edges up, the rate
  column and the final \<open>sort_values('bin_start')\<close>.
\<close>

definition binned_counts :: "real list \<Rightarrow> nat option list \<Rightarrow> real \<Rightarrow> time_bin list" where
  "binned_counts bins labels bin_size_seconds =
     sort_key bin_start
       (map (\<lambda>k. \<lparr>bin_start = bins ! k, bin_end = bins ! (k + 1),
                   count = count_list labels (Some k),
                   comment_rate = real (count_list labels (Some k)) / bin_size_seconds\<rparr>)
            (group_keys labels))"

definition bin_comments_by_time :: "comment list \<Rightarrow> real \<Rightarrow> error + time_bin list" where
  "bin_comments_by_time chat_df bin_size_seconds =
     (if chat_df = [] then Inr []
      else
        case bin_edges (map timestamp_sec chat_df) bin_size_seconds of
          Inl e \<Rightarrow> Inl e
        | Inr bins \<Rightarrow>
            (case pd_cut (map timestamp_sec chat_df) bins of
               Inl e \<Rightarrow> Inl e
             | Inr labels \<Rightarrow> Inr (binned_counts bins labels bin_size_seconds)))"

section \<open>CommentAnalyzer.find_peaks\<close>

text \<open>
  A peak dictionary: the keys \<open>time\<close>, \<open>time_end\<close>, \<open>count\<close>, \<open>comment_rate\<close> and
  \<open>percentile\<close>. The keys \<open>count\<close> and \<open>comment_rate\<close> are the fields \<open>peak_cnt\<close> and
  \<open>peak_rate\<close> here, the two names being columns of \<open>time_bin\<close> already.
\<close>

record peak =
  time :: real
  time_end :: real
  peak_cnt :: nat
  peak_rate :: real
  percentile :: nat

text \<open>
  Python's \<open>max(group, key=...)\<close>: the first element whose key is maximal;
  \<open>ValueError\<close> on an empty sequence.
\<close>

fun py_max :: "('a \<Rightarrow> nat) \<Rightarrow> 'a list \<Rightarrow> error + 'a" where
  "py_max f [] = Inl ValueError"
| "py_max f (x # xs) = Inr (fold (\<lambda>y m. if f m < f y then y else m) xs x)"

definition peak_of_row :: "time_bin \<Rightarrow> peak" where
  "peak_of_row max_row =
     \<lparr>time = bin_start max_row, time_end = bin_end max_row, peak_cnt = count max_row,
      peak_rate = comment_rate max_row, percentile = 0\<rparr>"

definition merge_peak_group :: "time_bin list \<Rightarrow> error + peak" where
  "merge_peak_group grp =
     (case py_max count grp of Inl e \<Rightarrow> Inl e | Inr max_row \<Rightarrow> Inr (peak_of_row max_row))"

text \<open>
  The \<open>for _, row in peaks.iterrows()\<close> loop of \<open>find_peaks\<close>; the state is
  \<open>(merged_peaks, current_group)\<close>.
\<close>

fun peaks_loop ::
  "time_bin list \<Rightarrow> real \<Rightarrow> peak list \<Rightarrow> time_bin list \<Rightarrow> error + (peak list \<times> time_bin list)"
where
  "peaks_loop [] min_gap_seconds merged_peaks current_group = Inr (merged_peaks, current_group)"
| "peaks_loop (row # rows) min_gap_seconds merged_peaks current_group =
     (if current_group = [] then peaks_loop rows min_gap_seconds merged_peaks [row]
      else if bin_start row - bin_end (last current_group) \<le> min_gap_seconds
      then peaks_loop rows min_gap_seconds merged_peaks (current_group @ [row])
      else (case merge_peak_group current_group of
              Inl e \<Rightarrow> Inl e
            | Inr p \<Rightarrow> peaks_loop rows min_gap_seconds (merged_peaks @ [p]) [row]))"

definition find_peaks :: "time_bin list \<Rightarrow> real \<Rightarrow> real \<Rightarrow> error + peak list" where
  "find_peaks binned_df threshold_percentile min_gap_seconds =
     (if binned_df = [] then Inr []
      else
        case np_percentile (map count binned_df) threshold_percentile of
          Inl e \<Rightarrow> Inl e
        | Inr threshold \<Rightarrow>
            (let peaks = filter (\<lambda>row. threshold \<le> real (count row)) binned_df
             in if peaks = [] then Inr []
                else
                  case peaks_loop peaks min_gap_seconds [] [] of
                    Inl e \<Rightarrow> Inl e
                  | Inr (merged_peaks, current_group) \<Rightarrow>
                      if current_group \<noteq> [] then
                        (case merge_peak_group current_group of
                           Inl e \<Rightarrow> Inl e
                         | Inr p \<Rightarrow> Inr (merged_peaks @ [p]))
                      else Inr merged_peaks))"

text \<open>
  The groups that the loop of \<open>find_peaks\<close> forms: a row joins the current group when
  \<open>row.bin_start - current_group[-1].bin_end <= min_gap_seconds\<close>, otherwise the group
  is closed and the row opens the next one; the last group is closed after the loop.
\<close>

fun peak_groups :: "time_bin list \<Rightarrow> real \<Rightarrow> time_bin list \<Rightarrow> time_bin list list" where
  "peak_groups [] min_gap_seconds current_group =
     (if current_group \<noteq> [] then [current_group] else [])"
| "peak_groups (row # rows) min_gap_seconds current_group =
     (if current_group = [] then peak_groups rows min_gap_seconds [row]
      else if bin_start row - bin_end (last current_group) \<le> min_gap_seconds
      then peak_groups rows min_gap_seconds (current_group @ [row])
      else current_group # peak_groups rows min_gap_seconds [row])"

section \<open>CommentAnalyzer.count_keywords\<close>

text \<open>A row of the table returned by \<open>count_keywords\<close>: the columns \<open>keyword\<close>,
  \<open>timestamp_sec\<close> and \<open>message\<close> (the last two with the prefix \<open>kw_\<close>, the names being
  fields of \<open>comment\<close> already).\<close>

record keyword_hit =
  keyword :: str
  kw_timestamp_sec :: real
  kw_message :: "str option"

text \<open>
  \<open>self.chat_df['message'].str\<close>: the accessor exists for a column that holds a string.
  A column of a non-empty table in which every message is missing is a float64 column of
  NaN, and \<open>.str\<close> raises \<open>AttributeError\<close> on it.
\<close>

definition has_str_accessor :: "str option list \<Rightarrow> bool" where
  "has_str_accessor column = list_ex (\<lambda>cell. cell \<noteq> None) column"

text \<open>
  One cell of \<open>.str.contains(pattern, na=False, regex=True)\<close>: a missing message gives
  the \<open>na\<close> value, which is \<open>False\<close>.
\<close>

definition str_contains :: "(str \<Rightarrow> bool) \<Rightarrow> str option \<Rightarrow> bool" where
  "str_contains pattern cell = (case cell of None \<Rightarrow> False | Some s \<Rightarrow> pattern s)"

text \<open>The \<open>for keyword in keywords\<close> loop; the state is the list \<open>results\<close> of tables.\<close>

fun count_keywords_loop ::
  "regex_engine \<Rightarrow> comment list \<Rightarrow> bool \<Rightarrow> str list \<Rightarrow> keyword_hit list list
   \<Rightarrow> error + keyword_hit list list"
where
  "count_keywords_loop rx chat_df case_sensitive [] results = Inr results"
| "count_keywords_loop rx chat_df case_sensitive (kw # keywords) results =
     (case rx kw (\<not> case_sensitive) of
        None \<Rightarrow> Inl ReError
      | Some pattern \<Rightarrow>
          if \<not> has_str_accessor (map message chat_df) then Inl AttributeError
          else
            (let matches = filter (\<lambda>row. str_contains pattern (message row)) chat_df
             in if matches \<noteq> [] then
                  count_keywords_loop rx chat_df case_sensitive keywords
                    (results @
                     [map (\<lambda>row. \<lparr>keyword = kw, kw_timestamp_sec = timestamp_sec row,
                                    kw_message = message row\<rparr>) matches])
                else count_keywords_loop rx chat_df case_sensitive keywords results))"

definition count_keywords ::
  "regex_engine \<Rightarrow> comment list \<Rightarrow> str list \<Rightarrow> bool \<Rightarrow> error + keyword_hit list"
where
  "count_keywords rx chat_df keywords case_sensitive =
     (if chat_df = [] then Inr []
      else propagate (count_keywords_loop rx chat_df case_sensitive keywords [])
             (\<lambda>results. Inr (concat results)))"

section \<open>CommentAnalyzer.get_keyword_frequency_over_time\<close>

text \<open>A row of the keyword frequency table: \<open>bin_start\<close>, \<open>bin_end\<close>, \<open>keyword\<close> and
  \<open>count\<close>, with the prefix \<open>kf_\<close>.\<close>

record keyword_bin =
  kf_bin_start :: real
  kf_bin_end :: real
  kf_keyword :: str
  kf_count :: nat

text \<open>The keys of \<open>groupby(['bin', 'keyword'])\<close>: the pairs that occur, rows with a NaN
  bin dropped, ascending.\<close>

definition group_keys2 :: "(nat option \<times> str) list \<Rightarrow> (nat \<times> str) list" where
  "group_keys2 rows =
     sort (remdups (List.map_filter
       (\<lambda>(b, kw). case b of None \<Rightarrow> None | Some i \<Rightarrow> Some (i, kw)) rows))"

definition binned_keywords :: "real list \<Rightarrow> (nat option \<times> str) list \<Rightarrow> keyword_bin list" where
  "binned_keywords bins rows =
     sort_key (\<lambda>r. (kf_bin_start r, kf_keyword r))
       (map (\<lambda>(i, kw). \<lparr>kf_bin_start = bins ! i, kf_bin_end = bins ! (i + 1), kf_keyword = kw,
                          kf_count = count_list rows (Some i, kw)\<rparr>)
            (group_keys2 rows))"

definition get_keyword_frequency_over_time ::
  "regex_engine \<Rightarrow> comment list \<Rightarrow> str list \<Rightarrow> real \<Rightarrow> error + keyword_bin list"
where
  "get_keyword_frequency_over_time rx chat_df keywords bin_size_seconds =
     propagate (count_keywords rx chat_df keywords False) (\<lambda>keyword_df.
       if keyword_df = [] then Inr []
       else
         propagate (bin_edges (map timestamp_sec chat_df) bin_size_seconds) (\<lambda>bins.
         propagate (pd_cut (map kw_timestamp_sec keyword_df) bins) (\<lambda>labels.
           Inr (binned_keywords bins (zip labels (map keyword keyword_df))))))"

section \<open>SubtitleAnalyzer\<close>

text \<open>
  A row of the subtitle table (\<open>start\<close>, \<open>duration\<close>, \<open>end\<close>, \<open>text\<close>). The fields of the
  records of this section carry a prefix, the source using \<open>start\<close>, \<open>end\<close> and \<open>text\<close>
  as keys of several dictionaries.
\<close>

record subtitle =
  sub_start :: real
  sub_duration :: real
  sub_end :: real
  sub_text :: str

text \<open>
  A subtitle table: its rows in table order, each with its index label. The labels are
  integers; the parser leaves the default index 0, 1, 2, ... (\<open>reset_index(drop=True)\<close>),
  but an analyser takes any table. \<open>iterrows\<close> yields the label with the row, and
  \<open>iloc\<close> reads by position.
\<close>

type_synonym subtitle_table = "(int \<times> subtitle) list"

record gap =
  gap_start :: real
  gap_end :: real
  gap_duration :: real

record segment =
  segment_id :: nat
  seg_start :: real
  seg_end :: real
  seg_duration :: real
  subtitle_count :: nat
  seg_text :: str

record topic_change =
  tc_time :: real
  tc_keyword :: str
  tc_text :: str

text \<open>
  \<open>detect_silence_gaps\<close> reads \<open>iloc[i]\<close> and \<open>iloc[i + 1]\<close> for the positions
  \<open>i\<close> of \<open>range(len(self.subtitle_df) - 1)\<close>, which are inside the table.
\<close>

definition detect_silence_gaps :: "subtitle_table \<Rightarrow> real \<Rightarrow> gap list" where
  "detect_silence_gaps subtitle_df min_gap_seconds =
     (if subtitle_df = [] \<or> length subtitle_df < 2 then []
      else concat (map (\<lambda>i.
             let current_end = sub_end (snd (subtitle_df ! i));
                 next_start = sub_start (snd (subtitle_df ! (i + 1)));
                 gap_dur = next_start - current_end
             in if min_gap_seconds \<le> gap_dur
                then [\<lparr>gap_start = current_end, gap_end = next_start, gap_duration = gap_dur\<rparr>]
                else [])
           [0..<length subtitle_df - 1]))"

text \<open>
  The \<open>for i, row in self.subtitle_df.iterrows()\<close> loop of \<open>segment_by_silence\<close>; the
  state is \<open>(segments, segment_start, current_segment_subs)\<close>. The loop variable \<open>i\<close> is
  the index label of the row; the code compares it with \<open>len(self.subtitle_df) - 1\<close> and
  reads the next start at the position \<open>i + 1\<close>.
\<close>

fun segment_loop ::
  "subtitle_table \<Rightarrow> gap list \<Rightarrow> real \<Rightarrow> subtitle_table \<Rightarrow> segment list \<Rightarrow> real
   \<Rightarrow> subtitle list \<Rightarrow> error + segment list"
where
  "segment_loop subtitle_df gaps min_segment_duration [] segments segment_start subs =
     Inr segments"
| "segment_loop subtitle_df gaps min_segment_duration ((i, row) # rest) segments segment_start
     subs =
     (let current_end = sub_end row;
          has_gap = list_ex (\<lambda>g. \<bar>gap_start g - current_end\<bar> < 0.1) gaps;
          current_segment_subs = subs @ [row]
      in if has_gap \<or> i = int (length subtitle_df) - 1 then
           (let segment_end = sub_end row;
                segment_duration = segment_end - segment_start;
                segments' =
                  (if min_segment_duration \<le> segment_duration then
                     segments @
                     [\<lparr>segment_id = length segments, seg_start = segment_start,
                       seg_end = segment_end, seg_duration = segment_duration,
                       subtitle_count = length current_segment_subs,
                       seg_text = str_join (ascii '' '') (map sub_text current_segment_subs)\<rparr>]
                   else segments)
            in if i < int (length subtitle_df) - 1 then
                 propagate (iloc subtitle_df (i + 1)) (\<lambda>next_row.
                   segment_loop subtitle_df gaps min_segment_duration rest segments'
                     (sub_start (snd next_row)) [])
               else
                 segment_loop subtitle_df gaps min_segment_duration rest segments'
                   segment_start current_segment_subs)
         else
           segment_loop subtitle_df gaps min_segment_duration rest segments segment_start
             current_segment_subs)"

definition segment_by_silence ::
  "subtitle_table \<Rightarrow> real \<Rightarrow> real \<Rightarrow> error + segment list"
where
  "segment_by_silence subtitle_df min_gap_seconds min_segment_duration =
     (if subtitle_df = [] then Inr []
      else segment_loop subtitle_df (detect_silence_gaps subtitle_df min_gap_seconds)
             min_segment_duration subtitle_df [] (sub_start (snd (subtitle_df ! 0))) [])"

text \<open>
  The default keywords of \<open>detect_topic_changes\<close>, eight Japanese discourse markers
  (in the source's order: "tsugi wa", "soredewa", "tsuzuite", "sate", "koko kara",
  "kore kara", "mazu", "saigo ni").
\<close>

definition default_topic_keywords :: "str list" where
  "default_topic_keywords =
     [[27425, 12399], [12381, 12428, 12391, 12399], [32154, 12356, 12390], [12373, 12390],
      [12371, 12371, 12363, 12425], [12371, 12428, 12363, 12425], [12414, 12378],
      [26368, 24460, 12395]]"

text \<open>
  The inner loop over the keywords: the first keyword that \<open>re.search(keyword, text)\<close>
  finds, if any; \<open>re.search\<close> compiles the keyword without flags and raises on a
  pattern it rejects.
\<close>

fun first_match :: "regex_engine \<Rightarrow> str list \<Rightarrow> str \<Rightarrow> error + str option" where
  "first_match rx [] text = Inr None"
| "first_match rx (kw # keywords) text =
     (case rx kw False of
        None \<Rightarrow> Inl ReError
      | Some pattern \<Rightarrow> if pattern text then Inr (Some kw) else first_match rx keywords text)"

fun topic_loop :: "regex_engine \<Rightarrow> str list \<Rightarrow> subtitle list \<Rightarrow> error + topic_change list" where
  "topic_loop rx keywords [] = Inr []"
| "topic_loop rx keywords (row # rows) =
     propagate (first_match rx keywords (sub_text row)) (\<lambda>m.
     propagate (topic_loop rx keywords rows) (\<lambda>changes.
       Inr ((case m of
               None \<Rightarrow> []
             | Some kw \<Rightarrow> [\<lparr>tc_time = sub_start row, tc_keyword = kw, tc_text = sub_text row\<rparr>])
            @ changes)))"

text \<open>\<open>detect_topic_changes\<close> goes through the rows (\<open>for _, row in ... iterrows()\<close>)
  and does not look at their labels.\<close>

definition detect_topic_changes ::
  "regex_engine \<Rightarrow> subtitle_table \<Rightarrow> str list option \<Rightarrow> error + topic_change list"
where
  "detect_topic_changes rx subtitle_df keywords =
     (let keywords = (case keywords of None \<Rightarrow> default_topic_keywords | Some ks \<Rightarrow> ks)
      in if subtitle_df = [] then Inr [] else topic_loop rx keywords (map snd subtitle_df))"

section \<open>ClipGenerator\<close>

text \<open>
  The \<open>details\<close> dictionary of a candidate is one of four shapes, told apart by their
  keys: \<open>peak_count\<close> and \<open>peak_time\<close>; \<open>total_count\<close>; \<open>segment_id\<close>,
  \<open>subtitle_count\<close> and \<open>text_preview\<close>; \<open>keyword\<close> and \<open>text\<close>.
\<close>

datatype details =
    Peak_details nat real
  | Keyword_details nat
  | Segment_details nat nat str
  | Topic_details str str

text \<open>
  A candidate dictionary: \<open>start\<close>, \<open>end\<close>, \<open>reason\<close>, \<open>score\<close>, \<open>details\<close> and, once
  the merge pass has taken it up, \<open>reasons\<close> and \<open>all_details\<close> (absent keys are the
  empty list, which is what \<open>candidate.get(key, [])\<close> reads).
\<close>

record candidate =
  c_start :: real
  c_end :: real
  reason :: str
  score :: real
  details :: details
  reasons :: "str list"
  all_details :: "details list"

text \<open>The reasons of the four producers: "comment surge", "keyword burst", "subtitle
  segment" and the prefix "topic shift: ", in Japanese in the source.\<close>

definition reason_comment_peak :: str where
  "reason_comment_peak = [12467, 12513, 12531, 12488, 24613, 22679]"

definition reason_keywords :: str where
  "reason_keywords = [12461, 12540, 12527, 12540, 12489, 22810, 30330]"

definition reason_segment :: str where
  "reason_segment = [23383, 24149, 12475, 12464, 12513, 12531, 12488]"

definition reason_topic_prefix :: str where
  "reason_topic_prefix = [35441, 38988, 36578, 25563, 58, 32]"

text \<open>The default reaction keywords: \<open>w+\<close>, "kusa", "wara", a full-width \<open>!\<close> and a
  full-width \<open>?\<close> each followed by \<open>+\<close>, "sugoi" and "yabai".\<close>

definition default_reaction_keywords :: "str list" where
  "default_reaction_keywords =
     [[119, 43], [33609], [31505], [65281, 43], [65311, 43], [12377, 12372, 12356],
      [12420, 12400, 12356]]"

definition new_candidate :: "real \<Rightarrow> real \<Rightarrow> str \<Rightarrow> details \<Rightarrow> candidate" where
  "new_candidate s e r d =
     \<lparr>c_start = s, c_end = e, reason = r, score = 0, details = d, reasons = [],
      all_details = []\<rparr>"

subsection \<open>The four producers\<close>

definition generate_from_comment_peaks ::
  "comment list \<Rightarrow> real \<Rightarrow> real \<Rightarrow> error + candidate list"
where
  "generate_from_comment_peaks chat_df min_duration max_duration =
     propagate (bin_comments_by_time chat_df 10) (\<lambda>binned_df.
     propagate (find_peaks binned_df 75 30) (\<lambda>peaks.
       Inr (concat (map (\<lambda>peak.
              let s = max 0 (time peak - 15);
                  e = min (time_end peak + 30) (time peak + 60);
                  duration = e - s
              in if min_duration \<le> duration \<and> duration \<le> max_duration
                 then [new_candidate s e reason_comment_peak
                         (Peak_details (peak_cnt peak) (time peak))]
                 else [])
            peaks))))"

definition create_candidate_from_group ::
  "keyword_bin list \<Rightarrow> str \<Rightarrow> real \<Rightarrow> real \<Rightarrow> candidate option"
where
  "create_candidate_from_group grp r min_duration max_duration =
     (if grp = [] then None
      else
        let s = max 0 (kf_bin_start (hd grp) - 10);
            e = kf_bin_end (last grp) + 10;
            duration = e - s
        in if min_duration \<le> duration \<and> duration \<le> max_duration
           then Some (new_candidate s e r (Keyword_details (sum_list (map kf_count grp))))
           else None)"

text \<open>
  \<open>keyword_freq_df.groupby(['bin_start', 'bin_end']).sum().reset_index()\<close>: one row for
  each pair of edges, ascending, with the counts added up (and the keywords of the group
  concatenated, a column that is not read afterwards).
\<close>

definition sum_by_bin :: "keyword_bin list \<Rightarrow> keyword_bin list" where
  "sum_by_bin keyword_freq_df =
     map (\<lambda>(s, e).
            let grp = filter (\<lambda>r. kf_bin_start r = s \<and> kf_bin_end r = e) keyword_freq_df
            in \<lparr>kf_bin_start = s, kf_bin_end = e, kf_keyword = concat (map kf_keyword grp),
                kf_count = sum_list (map kf_count grp)\<rparr>)
         (sort (remdups (map (\<lambda>r. (kf_bin_start r, kf_bin_end r)) keyword_freq_df)))"

text \<open>The grouping loop of \<open>_generate_from_keywords\<close>; the state is
  \<open>(candidates, current_group)\<close>.\<close>

fun keyword_group_loop ::
  "keyword_bin list \<Rightarrow> real \<Rightarrow> real \<Rightarrow> candidate list \<Rightarrow> keyword_bin list
   \<Rightarrow> candidate list \<times> keyword_bin list"
where
  "keyword_group_loop [] min_duration max_duration candidates current_group =
     (candidates, current_group)"
| "keyword_group_loop (row # rows) min_duration max_duration candidates current_group =
     (if current_group = [] then
        keyword_group_loop rows min_duration max_duration candidates [row]
      else if kf_bin_start row - kf_bin_end (last current_group) \<le> 20 then
        keyword_group_loop rows min_duration max_duration candidates (current_group @ [row])
      else
        (case create_candidate_from_group current_group reason_keywords min_duration
                max_duration of
           Some c \<Rightarrow> keyword_group_loop rows min_duration max_duration (candidates @ [c]) [row]
         | None \<Rightarrow> keyword_group_loop rows min_duration max_duration candidates [row]))"

definition generate_from_keywords ::
  "regex_engine \<Rightarrow> comment list \<Rightarrow> str list \<Rightarrow> real \<Rightarrow> real \<Rightarrow> error + candidate list"
where
  "generate_from_keywords rx chat_df keywords min_duration max_duration =
     propagate (get_keyword_frequency_over_time rx chat_df keywords 10) (\<lambda>keyword_freq_df.
       if keyword_freq_df = [] then Inr []
       else
         let summed = sum_by_bin keyword_freq_df
         in propagate (np_percentile (map kf_count summed) 75) (\<lambda>threshold.
              let high_keyword_bins = filter (\<lambda>r. threshold \<le> real (kf_count r)) summed;
                  (candidates, current_group) =
                     keyword_group_loop high_keyword_bins min_duration max_duration [] []
              in if current_group \<noteq> [] then
                   (case create_candidate_from_group current_group reason_keywords min_duration
                           max_duration of
                      Some c \<Rightarrow> Inr (candidates @ [c])
                    | None \<Rightarrow> Inr candidates)
                 else Inr candidates))"

definition text_preview :: "str \<Rightarrow> str" where
  "text_preview t = (if 100 < length t then take 100 t @ ascii ''...'' else t)"

definition generate_from_subtitle_segments ::
  "subtitle_table \<Rightarrow> real \<Rightarrow> real \<Rightarrow> error + candidate list"
where
  "generate_from_subtitle_segments subtitle_df min_duration max_duration =
     propagate (segment_by_silence subtitle_df 2 min_duration) (\<lambda>segments.
       Inr (concat (map (\<lambda>seg.
              let duration = seg_duration seg
              in if min_duration \<le> duration \<and> duration \<le> max_duration
                 then [new_candidate (seg_start seg) (seg_end seg) reason_segment
                         (Segment_details (segment_id seg) (subtitle_count seg)
                            (text_preview (seg_text seg)))]
                 else [])
            segments)))"

definition generate_from_topic_changes ::
  "regex_engine \<Rightarrow> subtitle_table \<Rightarrow> real \<Rightarrow> real \<Rightarrow> error + candidate list"
where
  "generate_from_topic_changes rx subtitle_df min_duration max_duration =
     propagate (detect_topic_changes rx subtitle_df None) (\<lambda>topic_changes.
       Inr (concat (map (\<lambda>(i, change).
              let s = tc_time change;
                  e = (if i < length topic_changes - 1 then tc_time (topic_changes ! (i + 1))
                       else s + 60);
                  duration = e - s
              in if min_duration \<le> duration \<and> duration \<le> max_duration
                 then [new_candidate s e (reason_topic_prefix @ tc_keyword change)
                         (Topic_details (tc_keyword change) (tc_text change))]
                 else [])
            (enumerate 0 topic_changes))))"

subsection \<open>Merging and scoring\<close>

definition calculate_overlap :: "candidate \<Rightarrow> candidate \<Rightarrow> real" where
  "calculate_overlap c1 c2 =
     (let overlap_start = max (c_start c1) (c_start c2);
          overlap_end = min (c_end c1) (c_end c2)
      in if overlap_end \<le> overlap_start then 0
         else
           let overlap_duration = overlap_end - overlap_start;
               min_duration = min (c_end c1 - c_start c1) (c_end c2 - c_start c2)
           in overlap_duration / min_duration)"

text \<open>What one \<open>details\<close> dictionary adds to the score: the two \<open>if ... in details\<close>
  tests of the loop body.\<close>

fun details_score :: "details \<Rightarrow> real" where
  "details_score (Peak_details peak_count peak_time) = min (real peak_count / 100) 0.3"
| "details_score (Keyword_details total_count) = min (real total_count / 50) 0.2"
| "details_score (Segment_details sid n t) = 0"
| "details_score (Topic_details kw t) = 0"

definition calculate_score :: "candidate \<Rightarrow> real" where
  "calculate_score cand =
     (let num_reasons = length (reasons cand);
          s = 0 + min (real num_reasons * 0.3) 0.6;
          s = fold (\<lambda>d acc. acc + details_score d) (all_details cand) s
      in min s 1)"

text \<open>The merge loop; the state is \<open>(merged, current)\<close>.\<close>

fun merge_loop :: "candidate list \<Rightarrow> candidate list \<Rightarrow> candidate \<Rightarrow> candidate list \<times> candidate"
where
  "merge_loop [] merged current = (merged, current)"
| "merge_loop (cand # rest) merged current =
     (if 0.5 < calculate_overlap current cand then
        merge_loop rest merged
          (current\<lparr>c_start := min (c_start current) (c_start cand),
                   c_end := max (c_end current) (c_end cand),
                   reasons := reasons current @ [reason cand],
                   all_details := all_details current @ [details cand]\<rparr>)
      else
        merge_loop rest (merged @ [current\<lparr>score := calculate_score current\<rparr>])
          (cand\<lparr>reasons := [reason cand], all_details := [details cand]\<rparr>))"

text \<open>
  \<open>', '.join(set(candidate['reasons']))\<close>: the distinct reasons, joined. Python leaves the
  order in which a set is traversed open; the model keeps the order of first occurrence.
\<close>

definition join_reasons :: "str list \<Rightarrow> str" where
  "join_reasons rs = str_join (ascii '', '') (remdups rs)"

definition merge_and_score_candidates :: "candidate list \<Rightarrow> real \<Rightarrow> real \<Rightarrow> candidate list"
where
  "merge_and_score_candidates candidates min_duration max_duration =
     (if candidates = [] then []
      else
        let sorted_candidates = sort_key c_start candidates;
            first = hd sorted_candidates;
            (merged, current) =
               merge_loop (tl sorted_candidates) []
                 (first\<lparr>reasons := [reason first], all_details := [details first]\<rparr>);
            merged = merged @ [current\<lparr>score := calculate_score current\<rparr>]
        in map (\<lambda>cand. cand\<lparr>reason := join_reasons (reasons cand)\<rparr>)
             (filter (\<lambda>cand. min_duration \<le> c_end cand - c_start cand \<and>
                              c_end cand - c_start cand \<le> max_duration) merged))"

subsection \<open>generate_candidates\<close>

text \<open>
  A \<open>ClipGenerator\<close> holds an optional comment analyser and an optional subtitle
  analyser; each is given by the table it holds. \<open>sort(key=score, reverse=True)\<close> is
  stable, so candidates of equal score keep their order.
\<close>

definition sort_by_score_desc :: "candidate list \<Rightarrow> candidate list" where
  "sort_by_score_desc cs = rev (sort_key score (rev cs))"

definition generate_candidates ::
  "regex_engine \<Rightarrow> comment list option \<Rightarrow> subtitle_table option \<Rightarrow> real \<Rightarrow> real
   \<Rightarrow> str list option \<Rightarrow> error + candidate list"
where
  "generate_candidates rx comment_analyzer subtitle_analyzer min_duration max_duration
     reaction_keywords =
     (let reaction_keywords =
            (case reaction_keywords of None \<Rightarrow> default_reaction_keywords | Some ks \<Rightarrow> ks)
      in
        propagate (case comment_analyzer of
                     None \<Rightarrow> Inr []
                   | Some chat_df \<Rightarrow> generate_from_comment_peaks chat_df min_duration max_duration)
          (\<lambda>peak_candidates.
        propagate (case comment_analyzer of
                     None \<Rightarrow> Inr []
                   | Some chat_df \<Rightarrow>
                       generate_from_keywords rx chat_df reaction_keywords min_duration
                         max_duration)
          (\<lambda>keyword_candidates.
        propagate (case subtitle_analyzer of
                     None \<Rightarrow> Inr []
                   | Some subtitle_df \<Rightarrow>
                       generate_from_subtitle_segments subtitle_df min_duration max_duration)
          (\<lambda>segment_candidates.
        propagate (case subtitle_analyzer of
                     None \<Rightarrow> Inr []
                   | Some subtitle_df \<Rightarrow>
                       generate_from_topic_changes rx subtitle_df min_duration max_duration)
          (\<lambda>topic_candidates.
        let candidates =
              peak_candidates @ keyword_candidates @ segment_candidates @ topic_candidates;
            merged_candidates = merge_and_score_candidates candidates min_duration max_duration
        in Inr (sort_by_score_desc merged_candidates))))))"

section \<open>Analyser objects and the tables they hold\<close>

text \<open>
  A DataFrame is a mutable object, and \<open>bin_comments_by_time\<close> assigns a column of the
  table that its analyser holds. Where that matters the heap of table objects is
  explicit: an address is a position in the list of the objects of one kind, and a new
  object is put at the end. A chat table has its rows and, once it has been assigned, the
  working column \<open>bin\<close>.
\<close>

type_synonym addr = nat

record chat_frame =
  chat_rows :: "comment list"
  bin_column :: "nat option list option"

record heap =
  chat_frames :: "chat_frame list"
  subtitle_frames :: "subtitle_table list"

text \<open>\<open>CommentAnalyzer.__init__\<close>: \<open>self.chat_df = chat_df.copy()\<close>, a new object with the
  contents of the argument.\<close>

record comment_analyzer =
  self_chat_df :: addr

definition CommentAnalyzer_init :: "addr \<Rightarrow> heap \<Rightarrow> comment_analyzer \<times> heap" where
  "CommentAnalyzer_init arg h =
     (\<lparr>self_chat_df = length (chat_frames h)\<rparr>,
      h\<lparr>chat_frames := chat_frames h @ [chat_frames h ! arg]\<rparr>)"

text \<open>\<open>SubtitleAnalyzer.__init__\<close>: \<open>self.subtitle_df = subtitle_df.copy()\<close>.\<close>

record subtitle_analyzer =
  self_subtitle_df :: addr

definition SubtitleAnalyzer_init :: "addr \<Rightarrow> heap \<Rightarrow> subtitle_analyzer \<times> heap" where
  "SubtitleAnalyzer_init arg h =
     (\<lparr>self_subtitle_df = length (subtitle_frames h)\<rparr>,
      h\<lparr>subtitle_frames := subtitle_frames h @ [subtitle_frames h ! arg]\<rparr>)"

text \<open>
  \<open>bin_comments_by_time\<close> as a method: it reads the rows of \<open>self.chat_df\<close> and, when
  \<open>pd.cut\<close> has returned, assigns \<open>self.chat_df['bin']\<close>. An empty table or an exception
  before the assignment leaves the heap as it was.
\<close>

definition bin_comments_by_time_method ::
  "comment_analyzer \<Rightarrow> real \<Rightarrow> heap \<Rightarrow> (error + time_bin list) \<times> heap"
where
  "bin_comments_by_time_method self bin_size_seconds h =
     (let df = chat_frames h ! self_chat_df self; ts = map timestamp_sec (chat_rows df)
      in if chat_rows df = [] then (Inr [], h)
         else
           case bin_edges ts bin_size_seconds of
             Inl e \<Rightarrow> (Inl e, h)
           | Inr bins \<Rightarrow>
               (case pd_cut ts bins of
                  Inl e \<Rightarrow> (Inl e, h)
                | Inr labels \<Rightarrow>
                    (Inr (binned_counts bins labels bin_size_seconds),
                     h\<lparr>chat_frames :=
                         (chat_frames h)[self_chat_df self := df\<lparr>bin_column := Some labels\<rparr>]\<rparr>)))"

text \<open>
  The calls that can be made on a comment analyser, and what each does to the heap. Only
  \<open>bin_comments_by_time\<close> assigns to a table; \<open>find_peaks\<close>, \<open>count_keywords\<close>,
  \<open>get_keyword_frequency_over_time\<close>, \<open>get_top_commenters\<close> and \<open>get_statistics\<close> read
  \<open>self.chat_df\<close> and build their results in tables of their own.
\<close>

datatype comment_call =
    Bin_comments_by_time real
  | Find_peaks "time_bin list" real real
  | Count_keywords "str list" bool
  | Get_keyword_frequency_over_time "str list" real
  | Get_top_commenters nat
  | Get_statistics

fun comment_call_heap :: "comment_analyzer \<Rightarrow> comment_call \<Rightarrow> heap \<Rightarrow> heap" where
  "comment_call_heap self (Bin_comments_by_time bin_size_seconds) h =
     snd (bin_comments_by_time_method self bin_size_seconds h)"
| "comment_call_heap self (Find_peaks binned_df threshold_percentile min_gap_seconds) h = h"
| "comment_call_heap self (Count_keywords kws case_sensitive) h = h"
| "comment_call_heap self (Get_keyword_frequency_over_time kws bin_size_seconds) h = h"
| "comment_call_heap self (Get_top_commenters top_n) h = h"
| "comment_call_heap self Get_statistics h = h"

text \<open>
  The calls on a subtitle analyser: none of the methods of \<open>SubtitleAnalyzer\<close> assigns to
  \<open>self.subtitle_df\<close> or to one of its columns.
\<close>

datatype subtitle_call =
    Detect_silence_gaps real
  | Segment_by_silence real real
  | Detect_topic_changes "str list option"
  | Find_keyword_timestamps "str list" bool
  | Get_subtitle_at_time real
  | Get_subtitle_range real real
  | Get_full_text str
  | Get_subtitle_statistics

definition subtitle_call_heap :: "subtitle_analyzer \<Rightarrow> subtitle_call \<Rightarrow> heap \<Rightarrow> heap" where
  "subtitle_call_heap self call h = h"

section \<open>Auxiliary notions for the statements about binning\<close>

text \<open>The edges \<open>f, f + bs, ..., f + (n - 1) * bs\<close> that \<open>np.arange\<close> returns for a positive step.\<close>

definition edges :: "real \<Rightarrow> real \<Rightarrow> nat \<Rightarrow> real list" where
  "edges f bs n = map (\<lambda>k. f + real k * bs) [0..<n]"

text \<open>The number of edges of \<open>bin_edges\<close>.\<close>

definition n_edges :: "real list \<Rightarrow> real \<Rightarrow> nat" where
  "n_edges ts bs = nat \<lceil>(real_of_int \<lceil>Max (set ts)\<rceil> + bs - real_of_int \<lfloor>Min (set ts)\<rfloor>) / bs\<rceil>"

text \<open>What \<open>pd.cut\<close> with \<open>right=True\<close> and \<open>include_lowest=True\<close> means for a bin: a timestamp
  belongs to it when it lies in \<open>(bin_start, bin_end]\<close>, and the lowest edge belongs to
  the bin that starts there.\<close>

definition in_bin :: "real \<Rightarrow> time_bin \<Rightarrow> real \<Rightarrow> bool" where
  "in_bin lowest b t \<longleftrightarrow>
     (bin_start b < t \<and> t \<le> bin_end b) \<or> (t = bin_start b \<and> bin_start b = lowest)"

text \<open>The row that \<open>binned_counts\<close> builds for the label \<open>k\<close>.\<close>

definition mk_bin :: "real list \<Rightarrow> nat option list \<Rightarrow> real \<Rightarrow> nat \<Rightarrow> time_bin" where
  "mk_bin bins labels bs k =
     \<lparr>bin_start = bins ! k, bin_end = bins ! (k + 1), count = count_list labels (Some k),
      comment_rate = real (count_list labels (Some k)) / bs\<rparr>"

text \<open>The first edge, \<open>np.floor(min_time)\<close>.\<close>

definition lowest_edge :: "real list \<Rightarrow> real" where
  "lowest_edge ts = real_of_int \<lfloor>Min (set ts)\<rfloor>"

text \<open>The edges and the labels of a timestamp column, for a positive bin size.\<close>

definition the_edges :: "real list \<Rightarrow> real \<Rightarrow> real list" where
  "the_edges ts bs = edges (lowest_edge ts) bs (n_edges ts bs)"

definition the_labels :: "real list \<Rightarrow> real \<Rightarrow> nat option list" where
  "the_labels ts bs = map (cut_label (the_edges ts bs)) ts"

text \<open>
  The spec's reading of a bin that is not the last one, half-open \<open>[bin_start, bin_end)\<close>:
  the number of timestamps it would hold.
\<close>

definition half_open_count :: "real list \<Rightarrow> time_bin \<Rightarrow> nat" where
  "half_open_count ts b = length (filter (\<lambda>t. bin_start b \<le> t \<and> t < bin_end b) ts)"

section \<open>Auxiliary notions for the statements about peaks\<close>

text \<open>
  The table \<open>peaks\<close> of \<open>find_peaks\<close>: the rows of \<open>binned_df\<close> whose count reaches the
  percentile threshold (none when the table is empty or the percentile is rejected).
\<close>

definition above_threshold :: "time_bin list \<Rightarrow> real \<Rightarrow> time_bin list" where
  "above_threshold binned_df threshold_percentile =
     (if binned_df = [] then []
      else case np_percentile (map count binned_df) threshold_percentile of
             Inl e \<Rightarrow> []
           | Inr threshold \<Rightarrow> filter (\<lambda>row. threshold \<le> real (count row)) binned_df)"

text \<open>The row that \<open>max(group, key=lambda x: x['count'])\<close> picks in a non-empty group.\<close>

definition max_row_of :: "time_bin list \<Rightarrow> time_bin" where
  "max_row_of grp = fold (\<lambda>y m. if count m < count y then y else m) (tl grp) (hd grp)"

text \<open>
  A peak that takes its start, end, count and rate from one row of a group, a row whose
  count is maximal in the group.
\<close>

definition from_max_member :: "time_bin list \<Rightarrow> peak \<Rightarrow> bool" where
  "from_max_member grp p \<longleftrightarrow>
     (\<exists>r\<in>set grp. (\<forall>x\<in>set grp. count x \<le> count r) \<and>
        time p = bin_start r \<and> time_end p = bin_end r \<and>
        peak_cnt p = count r \<and> peak_rate p = comment_rate r)"

section \<open>Auxiliary notions for the statements about candidates\<close>

text \<open>A candidate whose score lies between 0 and 1.\<close>

definition score_ok :: "candidate \<Rightarrow> bool" where
  "score_ok cand \<longleftrightarrow> 0 \<le> score cand \<and> score cand \<le> 1"

text \<open>
  A small stand-in for the \<open>re\<close> module, for running the analysers on examples: it accepts
  every pattern and reads it as literal text, which is found in a text that contains it.
\<close>

fun find_literal :: "str \<Rightarrow> str \<Rightarrow> bool" where
  "find_literal p [] = (p = [])"
| "find_literal p (c # cs) = (take (length p) (c # cs) = p \<or> find_literal p cs)"

definition literal_engine :: regex_engine where
  "literal_engine pattern ignore_case = Some (find_literal pattern)"





text \<open>The default index of a table: the label of each row is its position.\<close>

definition default_index :: "subtitle_table \<Rightarrow> bool" where
  "default_index subtitle_df \<longleftrightarrow> map fst subtitle_df = map int [0..<length subtitle_df]"

section \<open>An example heap\<close>

text \<open>One chat table with two rows and one subtitle table with one row, as a caller holds
  them before any analyser is made.\<close>

definition example_heap :: heap where
  "example_heap =
     \<lparr>chat_frames =
        [\<lparr>chat_rows = [\<lparr>timestamp_sec = 3, author = [117], message = Some [119, 119]\<rparr>,
                       \<lparr>timestamp_sec = 15, author = [118], message = None\<rparr>],
          bin_column = None\<rparr>],
      subtitle_frames =
        [[(0, \<lparr>sub_start = 0, sub_duration = 40, sub_end = 40, sub_text = [97]\<rparr>)]]\<rparr>"

section \<open>Binning: where each record goes\<close>

lemma takeWhile_len_props:
  assumes "m = length (takeWhile P xs)"
  shows "\<forall>j<m. P (xs ! j)" and "m < length xs \<longrightarrow> \<not> P (xs ! m)" and "m \<le> length xs"
proof -
  show "\<forall>j<m. P (xs ! j)"
  proof (intro allI impI)
    fix j assume "j < m"
    then have "takeWhile P xs ! j = xs ! j" "takeWhile P xs ! j \<in> set (takeWhile P xs)"
      using assms takeWhile_nth nth_mem by blast+
    then show "P (xs ! j)" by (metis set_takeWhileD)
  qed
  show "m < length xs \<longrightarrow> \<not> P (xs ! m)"
    using assms nth_length_takeWhile by blast
  show "m \<le> length xs" using assms by (simp add: length_takeWhile_le)
qed

lemma edges_nth: "k < n \<Longrightarrow> edges f bs n ! k = f + real k * bs"
  by (simp add: edges_def)

lemma edges_len: "length (edges f bs n) = n"
  by (simp add: edges_def)

lemma edges_mono: "0 < bs \<Longrightarrow> i \<le> j \<Longrightarrow> f + real i * bs \<le> f + real j * bs"
  by (simp add: mult_right_mono)

lemma edges_strict: "0 < bs \<Longrightarrow> i < j \<Longrightarrow> f + real i * bs < f + real j * bs"
  by simp

lemma edges_hd: "0 < n \<Longrightarrow> hd (edges f bs n) = f"
  by (simp add: edges_def hd_map upt_conv_Cons)

lemma searchsorted_edges:
  assumes bs: "0 < bs" and n: "2 \<le> n" and lo: "f < x" and hi: "x \<le> f + real (n - 1) * bs"
  defines "m \<equiv> searchsorted_left (edges f bs n) x"
  shows "0 < m" and "m < n" and "\<And>j. j < m \<Longrightarrow> f + real j * bs < x" and "x \<le> f + real m * bs"
proof -
  have m: "m = length (takeWhile (\<lambda>b. b < x) (edges f bs n))"
    by (simp add: m_def searchsorted_left_def)
  have mn: "m \<le> n" using takeWhile_len_props(3)[OF m] by (simp add: edges_len)
  show below: "\<And>j. j < m \<Longrightarrow> f + real j * bs < x"
  proof -
    fix j assume j: "j < m"
    with mn have "j < n" by simp
    moreover have "edges f bs n ! j < x" using takeWhile_len_props(1)[OF m] j by blast
    ultimately show "f + real j * bs < x" by (simp add: edges_nth)
  qed
  have above: "m < n \<Longrightarrow> x \<le> f + real m * bs"
    using takeWhile_len_props(2)[OF m] by (simp add: edges_len edges_nth)
  show "0 < m"
  proof (rule ccontr)
    assume "\<not> 0 < m"
    then have "x \<le> f" using above n by simp
    with lo show False by simp
  qed
  show mlt: "m < n"
  proof (rule ccontr)
    assume "\<not> m < n"
    then have "n - 1 < m" using mn n by simp
    from below[OF this] hi show False by simp
  qed
  show "x \<le> f + real m * bs" using above mlt by simp
qed

lemma cut_label_edges:
  assumes bs: "0 < bs" and n: "2 \<le> n" and lo: "f \<le> x" and hi: "x \<le> f + real (n - 1) * bs"
  shows "cut_label (edges f bs n) x = Some k \<longleftrightarrow>
         k + 1 < n \<and> (f + real k * bs < x \<and> x \<le> f + real (k + 1) * bs \<or> k = 0 \<and> x = f)"
proof (cases "x = f")
  case True
  have "cut_label (edges f bs n) x = Some 0"
    using True n by (simp add: cut_label_def edges_hd edges_len)
  moreover have "0 \<le> real k * bs" using bs by simp
  then have "\<not> f + real k * bs < f" by simp
  ultimately show ?thesis using True n by auto
next
  case False
  define m where "m = searchsorted_left (edges f bs n) x"
  from False lo have lo': "f < x" by simp
  note ss = searchsorted_edges[OF bs n lo' hi, folded m_def]
  have cl: "cut_label (edges f bs n) x = Some (m - 1)"
    using False n ss(1,2) by (simp add: cut_label_def edges_hd edges_len m_def)
  show ?thesis
  proof
    assume "cut_label (edges f bs n) x = Some k"
    then have mk: "m = k + 1" using cl ss(1) by simp
    have "f + real k * bs < x" using ss(3)[of k] mk by simp
    moreover have "x \<le> f + real (k + 1) * bs" using ss(4) mk by simp
    ultimately show "k + 1 < n \<and> (f + real k * bs < x \<and> x \<le> f + real (k + 1) * bs \<or> k = 0 \<and> x = f)"
      using ss(2) mk by simp
  next
    assume r: "k + 1 < n \<and> (f + real k * bs < x \<and> x \<le> f + real (k + 1) * bs \<or> k = 0 \<and> x = f)"
    with False have k: "k + 1 < n" "f + real k * bs < x" "x \<le> f + real (k + 1) * bs" by auto
    have "\<not> m \<le> k"
    proof
      assume mk: "m \<le> k"
      have "x \<le> f + real m * bs" using ss(4) .
      also have "\<dots> \<le> f + real k * bs" using edges_mono[OF bs mk] .
      finally show False using k(2) by simp
    qed
    moreover have "\<not> k + 1 < m"
    proof
      assume "k + 1 < m"
      from ss(3)[OF this] k(3) show False by simp
    qed
    ultimately have "m = k + 1" by simp
    then show "cut_label (edges f bs n) x = Some k" using cl by simp
  qed
qed

lemma cut_label_edges_total:
  assumes bs: "0 < bs" and n: "2 \<le> n" and lo: "f \<le> x" and hi: "x \<le> f + real (n - 1) * bs"
  shows "\<exists>k. cut_label (edges f bs n) x = Some k"
proof (cases "x = f")
  case True
  then show ?thesis using n by (simp add: cut_label_def edges_hd edges_len)
next
  case False
  with lo have lo': "f < x" by simp
  note ss = searchsorted_edges[OF bs n lo' hi]
  show ?thesis
    using False n ss(1,2) by (simp add: cut_label_def edges_hd edges_len)
qed

lemma bin_edges_eq:
  "0 < bs \<Longrightarrow> bin_edges ts bs = Inr (edges (real_of_int \<lfloor>Min (set ts)\<rfloor>) bs (n_edges ts bs))"
  by (simp add: bin_edges_def np_arange_def edges_def n_edges_def Let_def)

lemma n_edges_ge2:
  assumes "0 < bs" "ts \<noteq> []" "real_of_int \<lfloor>Min (set ts)\<rfloor> < Max (set ts)"
  shows "2 \<le> n_edges ts bs"
proof -
  let ?f = "real_of_int \<lfloor>Min (set ts)\<rfloor>" and ?c = "real_of_int \<lceil>Max (set ts)\<rceil>"
  have "?f < ?c" using assms(3) by linarith
  then have "\<lfloor>Min (set ts)\<rfloor> + 1 \<le> \<lceil>Max (set ts)\<rceil>" by linarith
  then have "?f + 1 \<le> ?c" by linarith
  define q where "q = (?c + bs - ?f) / bs"
  have "1 < q" using \<open>?f + 1 \<le> ?c\<close> assms(1) by (simp add: q_def field_simps)
  then have "2 \<le> \<lceil>q\<rceil>" by linarith
  then have "2 \<le> nat \<lceil>q\<rceil>" by linarith
  then show ?thesis by (simp only: n_edges_def q_def)
qed

lemma last_edge_ge_max:
  assumes "0 < bs" "ts \<noteq> []"
  shows "Max (set ts) \<le> real_of_int \<lfloor>Min (set ts)\<rfloor> + real (n_edges ts bs - 1) * bs"
proof -
  let ?f = "real_of_int \<lfloor>Min (set ts)\<rfloor>" and ?c = "real_of_int \<lceil>Max (set ts)\<rceil>"
  have mm: "Min (set ts) \<le> Max (set ts)" using assms(2) by simp
  have fc: "?f \<le> ?c" using mm by linarith
  define q where "q = (?c + bs - ?f) / bs"
  have q1: "1 \<le> q" using fc assms(1) by (simp add: q_def field_simps)
  then have c1: "1 \<le> \<lceil>q\<rceil>" by linarith
  have nq: "n_edges ts bs = nat \<lceil>q\<rceil>" by (simp only: n_edges_def q_def)
  have "int (nat \<lceil>q\<rceil> - 1) = \<lceil>q\<rceil> - 1"
    using c1 by linarith
  then have "real_of_int (int (nat \<lceil>q\<rceil> - 1)) = real_of_int (\<lceil>q\<rceil> - 1)"
    by (rule arg_cong)
  then have "real (nat \<lceil>q\<rceil> - 1) = real_of_int \<lceil>q\<rceil> - 1"
    by simp
  then have "real (n_edges ts bs - 1) = real_of_int \<lceil>q\<rceil> - 1"
    using nq by simp
  moreover have "q \<le> real_of_int \<lceil>q\<rceil>" by linarith
  ultimately have "q - 1 \<le> real (n_edges ts bs - 1)" by simp
  then have "(q - 1) * bs \<le> real (n_edges ts bs - 1) * bs"
    using assms(1) by (simp add: mult_right_mono)
  moreover have "(q - 1) * bs = ?c - ?f" using assms(1) by (simp add: q_def field_simps)
  moreover have "Max (set ts) \<le> ?c" by linarith
  ultimately show ?thesis by linarith
qed

lemma sorted_edges: "0 < bs \<Longrightarrow> sorted (edges f bs n)"
  unfolding edges_def
  by (simp add: sorted_map sorted_wrt_iff_nth_less mult_right_mono)

lemma set_group_keys: "set (group_keys labels) = {k. Some k \<in> set labels}"
  by (force simp: group_keys_def List.map_filter_def image_iff)

lemma sorted_group_keys: "sorted (group_keys labels)"
  by (simp add: group_keys_def)

lemma distinct_group_keys: "distinct (group_keys labels)"
  by (simp add: group_keys_def)

lemma count_list_map_filter:
  "count_list (map g xs) y = length (filter (\<lambda>x. g x = y) xs)"
  by (induction xs) auto

lemma binned_counts_edges:
  assumes bs: "0 < bs" and lab: "\<forall>k. Some k \<in> set labels \<longrightarrow> k + 1 < n"
  shows "binned_counts (edges f bs n) labels bs = map (mk_bin (edges f bs n) labels bs) (group_keys labels)"
proof -
  let ?g = "\<lambda>k. edges f bs n ! k"
  have "sorted_wrt (\<lambda>a b. ?g a \<le> ?g b) (group_keys labels)"
  proof (rule sorted_wrt_mono_rel[OF _ sorted_group_keys[of labels]])
    fix a b assume "a \<in> set (group_keys labels)" "b \<in> set (group_keys labels)" "a \<le> b"
    then have "a < n" "b < n" using lab by (auto simp: set_group_keys)
    then show "?g a \<le> ?g b" using \<open>a \<le> b\<close> bs by (simp add: edges_nth mult_right_mono)
  qed
  then have "sorted (map bin_start (map (mk_bin (edges f bs n) labels bs) (group_keys labels)))"
    by (simp add: sorted_map mk_bin_def comp_def)
  then show ?thesis
    unfolding binned_counts_def mk_bin_def[abs_def, symmetric]
    by (simp add: sort_key_id_if_sorted mk_bin_def[abs_def])
qed

lemma ts_in_range:
  assumes "0 < bs" "t \<in> set ts"
  shows "lowest_edge ts \<le> t" and "t \<le> lowest_edge ts + real (n_edges ts bs - 1) * bs"
proof -
  have ne: "ts \<noteq> []" using assms(2) by auto
  have "Min (set ts) \<le> t" "t \<le> Max (set ts)" using assms(2) by simp_all
  then show "lowest_edge ts \<le> t" unfolding lowest_edge_def by linarith
  show "t \<le> lowest_edge ts + real (n_edges ts bs - 1) * bs"
    using last_edge_ge_max[OF assms(1) ne] \<open>t \<le> Max (set ts)\<close> unfolding lowest_edge_def by linarith
qed

lemma labels_bound:
  assumes bs: "0 < bs" and nd: "lowest_edge ts < Max (set ts)" and ne: "ts \<noteq> []"
    and k: "Some k \<in> set (the_labels ts bs)"
  shows "k + 1 < n_edges ts bs"
proof -
  from k obtain t where t: "t \<in> set ts" "cut_label (the_edges ts bs) t = Some k"
    by (auto simp: the_labels_def)
  have n2: "2 \<le> n_edges ts bs" using n_edges_ge2[OF bs ne] nd by (simp add: lowest_edge_def)
  show ?thesis
    using cut_label_edges[OF bs n2 ts_in_range[OF bs t(1)], of k] t(2)
    by (simp add: the_edges_def)
qed

lemma bin_comments_by_time_eq:
  assumes ne: "chat_df \<noteq> []" and bs: "0 < bs"
    and nd: "lowest_edge (map timestamp_sec chat_df) < Max (set (map timestamp_sec chat_df))"
  shows "bin_comments_by_time chat_df bs =
         Inr (map (mk_bin (the_edges (map timestamp_sec chat_df) bs)
                     (the_labels (map timestamp_sec chat_df) bs) bs)
                (group_keys (the_labels (map timestamp_sec chat_df) bs)))"
proof -
  let ?ts = "map timestamp_sec chat_df"
  have tne: "?ts \<noteq> []" using ne by simp
  have n2: "2 \<le> n_edges ?ts bs" using n_edges_ge2[OF bs tne] nd by (simp add: lowest_edge_def)
  have e: "bin_edges ?ts bs = Inr (the_edges ?ts bs)"
    using bin_edges_eq[OF bs] by (simp add: the_edges_def lowest_edge_def)
  have "the_edges ?ts bs \<noteq> []" using n2 by (simp add: the_edges_def edges_def)
  then have c: "pd_cut ?ts (the_edges ?ts bs) = Inr (the_labels ?ts bs)"
    using sorted_edges[OF bs] by (simp add: pd_cut_def the_labels_def the_edges_def)
  have "binned_counts (the_edges ?ts bs) (the_labels ?ts bs) bs =
        map (mk_bin (the_edges ?ts bs) (the_labels ?ts bs) bs) (group_keys (the_labels ?ts bs))"
    unfolding the_edges_def
    apply (rule binned_counts_edges[OF bs])
    using labels_bound[OF bs nd tne] by (simp add: the_edges_def)
  then show ?thesis using ne e c by (simp add: bin_comments_by_time_def)
qed

text \<open>
  Claim C1, as the code has it. For a non-empty chat table and a positive bin size, unless
  every timestamp is one and the same whole number of seconds, \<open>bin_comments_by_time\<close>
  returns bins that start at \<open>floor(min_time) + k * bin_size_seconds\<close> and are
  \<open>bin_size_seconds\<close> wide; the count of a bin is the number of records with
  \<open>bin_start < t \<le> bin_end\<close>, the first bin also counting the records at its start
  \<open>floor(min_time)\<close>; and every record is counted in such a bin. The bins are closed on
  the right, not on the left: a record on an interior edge is counted in the bin that
  ends there.
\<close>

theorem bin_placement:
  assumes ne: "chat_df \<noteq> []" and bs: "0 < bin_size_seconds"
    and nd: "real_of_int \<lfloor>Min (set (map timestamp_sec chat_df))\<rfloor> < Max (set (map timestamp_sec chat_df))"
  shows "\<exists>out. bin_comments_by_time chat_df bin_size_seconds = Inr out \<and>
     (\<forall>b\<in>set out.
         (\<exists>k. bin_start b = real_of_int \<lfloor>Min (set (map timestamp_sec chat_df))\<rfloor> + real k * bin_size_seconds) \<and>
         bin_end b = bin_start b + bin_size_seconds \<and>
         count b = length (filter (in_bin (real_of_int \<lfloor>Min (set (map timestamp_sec chat_df))\<rfloor>) b)
                             (map timestamp_sec chat_df))) \<and>
     (\<forall>r\<in>set chat_df. \<exists>b\<in>set out.
         in_bin (real_of_int \<lfloor>Min (set (map timestamp_sec chat_df))\<rfloor>) b (timestamp_sec r))"
proof -
  let ?ts = "map timestamp_sec chat_df"
  let ?bs = bin_size_seconds
  let ?f = "lowest_edge ?ts" and ?n = "n_edges ?ts ?bs"
  let ?E = "the_edges ?ts ?bs" and ?L = "the_labels ?ts ?bs"
  let ?out = "map (mk_bin ?E ?L ?bs) (group_keys ?L)"
  have tne: "?ts \<noteq> []" using ne by simp
  have nd': "?f < Max (set ?ts)" using nd by (simp add: lowest_edge_def)
  have n2: "2 \<le> ?n" using n_edges_ge2[OF bs tne] nd by simp
  have eq: "bin_comments_by_time chat_df ?bs = Inr ?out"
    using bin_comments_by_time_eq[OF ne bs nd'] .
  have iff: "\<And>t k. t \<in> set ?ts \<Longrightarrow> k + 1 < ?n \<Longrightarrow>
      cut_label ?E t = Some k \<longleftrightarrow> in_bin ?f (mk_bin ?E ?L ?bs k) t"
  proof -
    fix t k assume t: "t \<in> set ?ts" and k: "k + 1 < ?n"
    have z: "?f + real k * ?bs = ?f \<longleftrightarrow> k = 0" using bs by simp
    have "cut_label ?E t = Some k \<longleftrightarrow>
          (?f + real k * ?bs < t \<and> t \<le> ?f + real (k + 1) * ?bs \<or> k = 0 \<and> t = ?f)"
      using cut_label_edges[OF bs n2 ts_in_range[OF bs t], of k] k by (simp add: the_edges_def)
    also have "\<dots> \<longleftrightarrow> in_bin ?f (mk_bin ?E ?L ?bs k) t"
      using k z by (auto simp: in_bin_def mk_bin_def the_edges_def edges_nth)
    finally show "cut_label ?E t = Some k \<longleftrightarrow> in_bin ?f (mk_bin ?E ?L ?bs k) t" .
  qed
  have bins: "\<forall>b\<in>set ?out. (\<exists>k. bin_start b = ?f + real k * ?bs) \<and>
         bin_end b = bin_start b + ?bs \<and> count b = length (filter (in_bin ?f b) ?ts)"
  proof
    fix b assume "b \<in> set ?out"
    then obtain k where k: "Some k \<in> set ?L" and b: "b = mk_bin ?E ?L ?bs k"
      by (auto simp: set_group_keys)
    have kn: "k + 1 < ?n" using labels_bound[OF bs nd' tne k] .
    have s: "bin_start b = ?f + real k * ?bs" and e: "bin_end b = ?f + real (k + 1) * ?bs"
      using kn by (simp_all add: b mk_bin_def the_edges_def edges_nth)
    have "count b = length (filter (\<lambda>t. cut_label ?E t = Some k) ?ts)"
      by (simp only: b mk_bin_def the_labels_def count_list_map_filter time_bin.simps)
    also have "\<dots> = length (filter (in_bin ?f b) ?ts)"
      using iff[OF _ kn] by (intro arg_cong[where f = length] filter_cong) (auto simp: b)
    finally have c: "count b = length (filter (in_bin ?f b) ?ts)" .
    from s e c show "(\<exists>k. bin_start b = ?f + real k * ?bs) \<and>
         bin_end b = bin_start b + ?bs \<and> count b = length (filter (in_bin ?f b) ?ts)"
      by (auto simp: algebra_simps)
  qed
  have recs: "\<forall>r\<in>set chat_df. \<exists>b\<in>set ?out. in_bin ?f b (timestamp_sec r)"
  proof
    fix r assume r: "r \<in> set chat_df"
    then have t: "timestamp_sec r \<in> set ?ts" by simp
    obtain k where k: "cut_label ?E (timestamp_sec r) = Some k"
      using cut_label_edges_total[OF bs n2 ts_in_range[OF bs t]] by (auto simp: the_edges_def)
    then have kl: "Some k \<in> set ?L" using t by (force simp: the_labels_def)
    have kn: "k + 1 < ?n" using labels_bound[OF bs nd' tne kl] .
    have "mk_bin ?E ?L ?bs k \<in> set ?out" using kl by (simp add: set_group_keys)
    moreover have "in_bin ?f (mk_bin ?E ?L ?bs k) (timestamp_sec r)" using iff[OF t kn] k by simp
    ultimately show "\<exists>b\<in>set ?out. in_bin ?f b (timestamp_sec r)" by blast
  qed
  show ?thesis using eq bins recs unfolding lowest_edge_def by blast
qed

text \<open>
  The claim at work: records at 10, 20 and 25 seconds, 10-second bins. The edges are 10,
  20 and 30; the records at 10 and 20 are counted from 10 to 20, the record at 25 from 20
  to 30.
\<close>

theorem bin_placement_witness:
  "[\<lparr>timestamp_sec = 10, author = ascii ''a'', message = Some (ascii ''x'')\<rparr>,
    \<lparr>timestamp_sec = 20, author = ascii ''b'', message = Some (ascii ''y'')\<rparr>,
    \<lparr>timestamp_sec = 25, author = ascii ''a'', message = Some (ascii ''z'')\<rparr>] \<noteq> [] \<and> (0::real) < 10 \<and>
   real_of_int \<lfloor>Min {10, 20, 25 :: real}\<rfloor> < Max {10, 20, 25 :: real} \<and>
   (\<exists>out. bin_comments_by_time
        [\<lparr>timestamp_sec = 10, author = ascii ''a'', message = Some (ascii ''x'')\<rparr>,
         \<lparr>timestamp_sec = 20, author = ascii ''b'', message = Some (ascii ''y'')\<rparr>,
         \<lparr>timestamp_sec = 25, author = ascii ''a'', message = Some (ascii ''z'')\<rparr>] 10 = Inr out \<and>
      (\<forall>b\<in>set out. (\<exists>k. bin_start b = 10 + real k * 10) \<and> bin_end b = bin_start b + 10 \<and>
          count b = length (filter (in_bin 10 b) [10, 20, 25])) \<and>
      (\<forall>t\<in>{10, 20, 25}. \<exists>b\<in>set out. in_bin 10 b t))"
  using bin_placement [of "[\<lparr>timestamp_sec = 10, author = ascii ''a'', message = Some (ascii ''x'')\<rparr>,
         \<lparr>timestamp_sec = 20, author = ascii ''b'', message = Some (ascii ''y'')\<rparr>,
         \<lparr>timestamp_sec = 25, author = ascii ''a'', message = Some (ascii ''z'')\<rparr>]" 10]
  by simp

lemma boundary_edges: "bin_edges [10, 20, 25] 10 = Inr [10, 20, 30]"
  by (simp add: bin_edges_def np_arange_def upt_rec numeral_eq_Suc)

lemma boundary_labels: "pd_cut [10, 20, 25] [10, 20, 30] = Inr [Some 0, Some 0, Some 1]"
  by (simp add: pd_cut_def cut_label_def searchsorted_left_def)

lemma boundary_counts:
  "binned_counts [10, 20, 30] [Some 0, Some 0, Some 1] 10 =
     [\<lparr>bin_start = 10, bin_end = 20, count = 2, comment_rate = 1 / 5\<rparr>,
      \<lparr>bin_start = 20, bin_end = 30, count = 1, comment_rate = 1 / 10\<rparr>]"
  by (simp add: binned_counts_def group_keys_def List.map_filter_def)

text \<open>
  Claim C1 as the spec states it fails. With records at 10, 20 and 25 seconds and 10-second
  bins, the record at the interior edge 20 is counted in the bin from 10 to 20 (count 2),
  while the half-open bin \<open>[10, 20)\<close> of the claim holds one record only.
\<close>

theorem bin_boundary_counterexample:
  "bin_comments_by_time
     [\<lparr>timestamp_sec = 10, author = ascii ''a'', message = Some (ascii ''x'')\<rparr>,
      \<lparr>timestamp_sec = 20, author = ascii ''b'', message = Some (ascii ''y'')\<rparr>,
      \<lparr>timestamp_sec = 25, author = ascii ''a'', message = Some (ascii ''z'')\<rparr>] 10 =
     Inr [\<lparr>bin_start = 10, bin_end = 20, count = 2, comment_rate = 1 / 5\<rparr>,
          \<lparr>bin_start = 20, bin_end = 30, count = 1, comment_rate = 1 / 10\<rparr>] \<and>
   half_open_count [10, 20, 25]
     \<lparr>bin_start = 10, bin_end = 20, count = 2, comment_rate = 1 / 5\<rparr> = 1"
  using boundary_edges boundary_labels boundary_counts
  by (simp add: bin_comments_by_time_def half_open_count_def)

section \<open>Binning: the bins as a partition of the records\<close>

lemma sum_counts_labels:
  assumes "None \<notin> set labels"
  shows "sum_list (map (\<lambda>k. count_list labels (Some k)) (group_keys labels)) = length labels"
proof -
  have "sum_list (map (\<lambda>k. count_list labels (Some k)) (group_keys labels)) =
        sum (\<lambda>k. count_list labels (Some k)) (set (group_keys labels))"
    using distinct_group_keys by (simp add: sum_list_distinct_conv_sum_set)
  also have "\<dots> = sum (count_list labels) (Some ` set (group_keys labels))"
    by (simp add: sum.reindex comp_def)
  also have "Some ` set (group_keys labels) = set labels"
  proof -
    have "\<And>l. l \<in> set labels \<Longrightarrow> \<exists>k. l = Some k" using assms by (metis option.exhaust)
    then show ?thesis by (auto simp: set_group_keys)
  qed
  also have "sum (count_list labels) (set labels) = length labels"
    by (rule sum_count_set) simp_all
  finally show ?thesis .
qed

text \<open>
  Away from the case where every timestamp is one and the same whole number of seconds, the
  bins are ascending and do not overlap, each is \<open>bin_size_seconds\<close> wide and holds at
  least one record, and the counts add up to the number of records.
\<close>

lemma bins_partition:
  assumes ne: "chat_df \<noteq> []" and bs: "0 < bin_size_seconds"
    and nd: "real_of_int \<lfloor>Min (set (map timestamp_sec chat_df))\<rfloor> < Max (set (map timestamp_sec chat_df))"
  shows "\<exists>out. bin_comments_by_time chat_df bin_size_seconds = Inr out \<and>
     sorted_wrt (\<lambda>a b. bin_end a \<le> bin_start b) out \<and>
     (\<forall>b\<in>set out. bin_end b = bin_start b + bin_size_seconds \<and> 0 < count b) \<and>
     sum_list (map count out) = length chat_df"
proof -
  let ?ts = "map timestamp_sec chat_df"
  let ?bs = bin_size_seconds
  let ?f = "lowest_edge ?ts" and ?n = "n_edges ?ts ?bs"
  let ?E = "the_edges ?ts ?bs" and ?L = "the_labels ?ts ?bs"
  let ?out = "map (mk_bin ?E ?L ?bs) (group_keys ?L)"
  have tne: "?ts \<noteq> []" using ne by simp
  have nd': "?f < Max (set ?ts)" using nd by (simp add: lowest_edge_def)
  have n2: "2 \<le> ?n" using n_edges_ge2[OF bs tne] nd by simp
  have eq: "bin_comments_by_time chat_df ?bs = Inr ?out"
    using bin_comments_by_time_eq[OF ne bs nd'] .
  have kn: "\<And>k. k \<in> set (group_keys ?L) \<Longrightarrow> k + 1 < ?n"
    using labels_bound[OF bs nd' tne] by (simp add: set_group_keys)
  have "sorted_wrt (<) (group_keys ?L)"
    using sorted_group_keys distinct_group_keys by (simp add: strict_sorted_iff)
  then have "sorted_wrt (\<lambda>a b. bin_end (mk_bin ?E ?L ?bs a) \<le> bin_start (mk_bin ?E ?L ?bs b)) (group_keys ?L)"
  proof (rule sorted_wrt_mono_rel[rotated])
    fix a b assume a: "a \<in> set (group_keys ?L)" and b: "b \<in> set (group_keys ?L)" and ab: "a < b"
    have "a + 1 \<le> b" using ab by simp
    then have "?f + real (a + 1) * ?bs \<le> ?f + real b * ?bs" by (rule edges_mono[OF bs])
    then show "bin_end (mk_bin ?E ?L ?bs a) \<le> bin_start (mk_bin ?E ?L ?bs b)"
      using kn[OF a] kn[OF b] by (simp add: mk_bin_def the_edges_def edges_nth)
  qed
  then have srt: "sorted_wrt (\<lambda>a b. bin_end a \<le> bin_start b) ?out"
    by (simp add: sorted_wrt_map)
  have each: "\<forall>b\<in>set ?out. bin_end b = bin_start b + ?bs \<and> 0 < count b"
  proof
    fix b assume "b \<in> set ?out"
    then obtain k where k: "k \<in> set (group_keys ?L)" and b: "b = mk_bin ?E ?L ?bs k" by auto
    have "Some k \<in> set ?L" using k by (simp add: set_group_keys)
    then have "count_list ?L (Some k) \<noteq> 0" by (simp only: count_list_0_iff not_not)
    then have "0 < count_list ?L (Some k)" by simp
    then show "bin_end b = bin_start b + ?bs \<and> 0 < count b"
      using kn[OF k] by (simp add: b mk_bin_def the_edges_def edges_nth algebra_simps)
  qed
  have "None \<notin> set ?L"
  proof
    assume "None \<in> set ?L"
    then obtain t where t: "t \<in> set ?ts" "cut_label ?E t = None"
      unfolding the_labels_def by (metis (no_types, lifting) imageE set_map)
    then show False
      using cut_label_edges_total[OF bs n2 ts_in_range[OF bs t(1)]] by (simp add: the_edges_def)
  qed
  then have "sum_list (map (\<lambda>k. count_list ?L (Some k)) (group_keys ?L)) = length ?L"
    by (rule sum_counts_labels)
  then have tot: "sum_list (map count ?out) = length chat_df"
    by (simp add: comp_def mk_bin_def the_labels_def)
  show ?thesis using eq srt each tot by blast
qed

text \<open>
  Claim C5 fails on the code in the remaining case. One comment at 10 seconds: \<open>np.arange\<close>
  returns the single edge 10, \<open>pd.cut\<close> labels the record NaN (\<open>ids == len(bins)\<close>),
  \<open>groupby\<close> drops it, and no bin is returned: the counts add up to 0, not to 1.
\<close>

theorem single_edge_loses_records:
  "bin_comments_by_time [\<lparr>timestamp_sec = 10, author = ascii ''a'', message = Some (ascii ''x'')\<rparr>] 10 = Inr [] \<and>
   bin_edges [10] 10 = Inr [10] \<and> pd_cut [10] [10] = Inr [None]"
  by (simp add: bin_comments_by_time_def bin_edges_def np_arange_def pd_cut_def cut_label_def
      binned_counts_def group_keys_def List.map_filter_def)

section \<open>The scenario of the spec: seven comments, 30-second bins\<close>

lemma scenario_edges: "bin_edges [10, 15, 20, 25, 100, 105, 110] 30 = Inr [10, 40, 70, 100, 130]"
  by (simp add: bin_edges_def np_arange_def upt_rec numeral_eq_Suc)

lemma scenario_labels:
  "pd_cut [10, 15, 20, 25, 100, 105, 110] [10, 40, 70, 100, 130] =
     Inr [Some 0, Some 0, Some 0, Some 0, Some 2, Some 3, Some 3]"
  by (simp add: pd_cut_def cut_label_def searchsorted_left_def)

lemma scenario_counts:
  "binned_counts [10, 40, 70, 100, 130]
     [Some 0, Some 0, Some 0, Some 0, Some 2, Some 3, Some 3] 30 =
     [\<lparr>bin_start = 10, bin_end = 40, count = 4, comment_rate = 2 / 15\<rparr>,
      \<lparr>bin_start = 70, bin_end = 100, count = 1, comment_rate = 1 / 30\<rparr>,
      \<lparr>bin_start = 100, bin_end = 130, count = 2, comment_rate = 1 / 15\<rparr>]"
  by (simp add: binned_counts_def group_keys_def List.map_filter_def)

lemma scenario_bins:
  "bin_comments_by_time
     [\<lparr>timestamp_sec = 10, author = ascii ''User1'', message = Some (ascii ''a'')\<rparr>,
      \<lparr>timestamp_sec = 15, author = ascii ''User2'', message = Some (ascii ''ww'')\<rparr>,
      \<lparr>timestamp_sec = 20, author = ascii ''User1'', message = Some (ascii ''b'')\<rparr>,
      \<lparr>timestamp_sec = 25, author = ascii ''User3'', message = Some (ascii ''c'')\<rparr>,
      \<lparr>timestamp_sec = 100, author = ascii ''User1'', message = Some (ascii ''!?'')\<rparr>,
      \<lparr>timestamp_sec = 105, author = ascii ''User2'', message = Some (ascii ''d'')\<rparr>,
      \<lparr>timestamp_sec = 110, author = ascii ''User1'', message = Some (ascii ''www'')\<rparr>] 30 =
     Inr [\<lparr>bin_start = 10, bin_end = 40, count = 4, comment_rate = 2 / 15\<rparr>,
          \<lparr>bin_start = 70, bin_end = 100, count = 1, comment_rate = 1 / 30\<rparr>,
          \<lparr>bin_start = 100, bin_end = 130, count = 2, comment_rate = 1 / 15\<rparr>]"
  using scenario_edges scenario_labels scenario_counts by (simp add: bin_comments_by_time_def)

lemma percentile_4_1_2: "np_percentile [4, 1, 2] 75 = Inr 3"
  by (simp add: np_percentile_def)

lemma percentile_4_3: "np_percentile [4, 3] 75 = Inr (15 / 4)"
  by (simp add: np_percentile_def)

lemma scenario_peaks:
  "find_peaks
     [\<lparr>bin_start = 10, bin_end = 40, count = 4, comment_rate = 2 / 15\<rparr>,
      \<lparr>bin_start = 70, bin_end = 100, count = 1, comment_rate = 1 / 30\<rparr>,
      \<lparr>bin_start = 100, bin_end = 130, count = 2, comment_rate = 1 / 15\<rparr>] 75 30 =
     Inr [\<lparr>time = 10, time_end = 40, peak_cnt = 4, peak_rate = 2 / 15, percentile = 0\<rparr>]"
  using percentile_4_1_2 by (simp add: find_peaks_def merge_peak_group_def peak_of_row_def)

lemma spec_bins_peaks:
  "find_peaks
     [\<lparr>bin_start = 0, bin_end = 30, count = 4, comment_rate = 2 / 15\<rparr>,
      \<lparr>bin_start = 90, bin_end = 120, count = 3, comment_rate = 1 / 10\<rparr>] 75 30 =
     Inr [\<lparr>time = 0, time_end = 30, peak_cnt = 4, peak_rate = 2 / 15, percentile = 0\<rparr>]"
  using percentile_4_3 by (simp add: find_peaks_def merge_peak_group_def peak_of_row_def)

text \<open>
  Claim C2 as the spec states it fails: the bins for the seven comments are not
  \<open>[0, 30)\<close> with 4 and \<open>[90, 120)\<close> with 3, the 75th percentile of the counts 4 and 3
  is not 3.25, and \<open>find_peaks\<close> over the two bins of the spec does not return two peaks.
\<close>

theorem scenario_counterexample:
  "bin_comments_by_time
     [\<lparr>timestamp_sec = 10, author = ascii ''User1'', message = Some (ascii ''a'')\<rparr>,
      \<lparr>timestamp_sec = 15, author = ascii ''User2'', message = Some (ascii ''ww'')\<rparr>,
      \<lparr>timestamp_sec = 20, author = ascii ''User1'', message = Some (ascii ''b'')\<rparr>,
      \<lparr>timestamp_sec = 25, author = ascii ''User3'', message = Some (ascii ''c'')\<rparr>,
      \<lparr>timestamp_sec = 100, author = ascii ''User1'', message = Some (ascii ''!?'')\<rparr>,
      \<lparr>timestamp_sec = 105, author = ascii ''User2'', message = Some (ascii ''d'')\<rparr>,
      \<lparr>timestamp_sec = 110, author = ascii ''User1'', message = Some (ascii ''www'')\<rparr>] 30 \<noteq>
     Inr [\<lparr>bin_start = 0, bin_end = 30, count = 4, comment_rate = 2 / 15\<rparr>,
          \<lparr>bin_start = 90, bin_end = 120, count = 3, comment_rate = 1 / 10\<rparr>] \<and>
   np_percentile [4, 3] 75 \<noteq> Inr (13 / 4) \<and>
   map_sum id length
     (find_peaks
        [\<lparr>bin_start = 0, bin_end = 30, count = 4, comment_rate = 2 / 15\<rparr>,
         \<lparr>bin_start = 90, bin_end = 120, count = 3, comment_rate = 1 / 10\<rparr>] 75 30) \<noteq> Inr 2"
  using scenario_bins percentile_4_3 spec_bins_peaks by simp

text \<open>
  Claim C2, as the code has it. The seven comments at 10, 15, 20, 25, 100, 105 and 110
  seconds, binned at 30 seconds, give the bins 10 to 40 with 4 comments, 70 to 100 with 1
  and 100 to 130 with 2 (the edges start at \<open>floor(min_time) = 10\<close>, and the comment at
  100 lies on an edge, so it belongs to the bin that ends there). Over these bins
  \<open>find_peaks\<close> with the 75th percentile and a minimal gap of 30 takes the threshold 3 and
  returns one peak, the bin from 10 to 40. Over the two bins of the spec, the 75th
  percentile of the counts 4 and 3 is 3.75, only the first bin reaches it, and one peak is
  returned.
\<close>

theorem scenario_as_coded:
  "bin_comments_by_time
     [\<lparr>timestamp_sec = 10, author = ascii ''User1'', message = Some (ascii ''a'')\<rparr>,
      \<lparr>timestamp_sec = 15, author = ascii ''User2'', message = Some (ascii ''ww'')\<rparr>,
      \<lparr>timestamp_sec = 20, author = ascii ''User1'', message = Some (ascii ''b'')\<rparr>,
      \<lparr>timestamp_sec = 25, author = ascii ''User3'', message = Some (ascii ''c'')\<rparr>,
      \<lparr>timestamp_sec = 100, author = ascii ''User1'', message = Some (ascii ''!?'')\<rparr>,
      \<lparr>timestamp_sec = 105, author = ascii ''User2'', message = Some (ascii ''d'')\<rparr>,
      \<lparr>timestamp_sec = 110, author = ascii ''User1'', message = Some (ascii ''www'')\<rparr>] 30 =
     Inr [\<lparr>bin_start = 10, bin_end = 40, count = 4, comment_rate = 2 / 15\<rparr>,
          \<lparr>bin_start = 70, bin_end = 100, count = 1, comment_rate = 1 / 30\<rparr>,
          \<lparr>bin_start = 100, bin_end = 130, count = 2, comment_rate = 1 / 15\<rparr>] \<and>
   np_percentile [4, 1, 2] 75 = Inr 3 \<and>
   find_peaks
     [\<lparr>bin_start = 10, bin_end = 40, count = 4, comment_rate = 2 / 15\<rparr>,
      \<lparr>bin_start = 70, bin_end = 100, count = 1, comment_rate = 1 / 30\<rparr>,
      \<lparr>bin_start = 100, bin_end = 130, count = 2, comment_rate = 1 / 15\<rparr>] 75 30 =
     Inr [\<lparr>time = 10, time_end = 40, peak_cnt = 4, peak_rate = 2 / 15, percentile = 0\<rparr>] \<and>
   np_percentile [4, 3] 75 = Inr (15 / 4) \<and>
   find_peaks
     [\<lparr>bin_start = 0, bin_end = 30, count = 4, comment_rate = 2 / 15\<rparr>,
      \<lparr>bin_start = 90, bin_end = 120, count = 3, comment_rate = 1 / 10\<rparr>] 75 30 =
     Inr [\<lparr>time = 0, time_end = 30, peak_cnt = 4, peak_rate = 2 / 15, percentile = 0\<rparr>]"
  using scenario_bins percentile_4_1_2 scenario_peaks percentile_4_3 spec_bins_peaks by simp

section \<open>Peaks: one representative row for each group\<close>

lemma fold_max_props:
  "fold (\<lambda>y m. if f m < f y then y else m) xs a \<in> set (a # xs) \<and>
   (\<forall>x\<in>set (a # xs). (f x :: nat) \<le> f (fold (\<lambda>y m. if f m < f y then y else m) xs a))"
proof (induction xs arbitrary: a)
  case Nil
  show ?case by simp
next
  case (Cons y ys)
  show ?case
  proof (cases "f a < f y")
    case True
    with Cons[of y] show ?thesis by auto
  next
    case False
    with Cons[of a] show ?thesis by auto
  qed
qed

lemma merge_peak_group_nonempty:
  assumes "grp \<noteq> []"
  shows "merge_peak_group grp = Inr (peak_of_row (max_row_of grp))"
  using assms by (cases grp) (simp_all add: merge_peak_group_def max_row_of_def)

lemma max_row_of_props:
  assumes "grp \<noteq> []"
  shows "max_row_of grp \<in> set grp" and "\<forall>x\<in>set grp. count x \<le> count (max_row_of grp)"
proof -
  obtain a xs where g: "grp = a # xs" using assms by (cases grp) auto
  have m: "max_row_of (a # xs) = fold (\<lambda>y m. if count m < count y then y else m) xs a"
    by (simp add: max_row_of_def)
  show "max_row_of grp \<in> set grp"
    using fold_max_props[of count xs a] unfolding g m by blast
  show "\<forall>x\<in>set grp. count x \<le> count (max_row_of grp)"
    using fold_max_props[of count xs a] unfolding g m by blast
qed

lemma from_max_member_peak:
  assumes "grp \<noteq> []"
  shows "from_max_member grp (peak_of_row (max_row_of grp))"
  unfolding from_max_member_def
  using max_row_of_props[OF assms] by (intro bexI[of _ "max_row_of grp"]) (simp_all add: peak_of_row_def)

lemma peak_groups_nonempty: "grp \<in> set (peak_groups rows g cur) \<Longrightarrow> grp \<noteq> []"
  by (induction rows arbitrary: cur) (auto split: if_splits)

lemma peaks_loop_groups:
  "\<exists>m' c'. peaks_loop rows g merged cur = Inr (m', c') \<and>
     m' @ map (\<lambda>grp. peak_of_row (max_row_of grp)) (if c' = [] then [] else [c']) =
     merged @ map (\<lambda>grp. peak_of_row (max_row_of grp)) (peak_groups rows g cur)"
proof (induction rows arbitrary: merged cur)
  case Nil
  show ?case by simp
next
  case (Cons row rows)
  show ?case
  proof (cases "cur = []")
    case True
    with Cons[of merged "[row]"] show ?thesis by simp
  next
    case ne: False
    show ?thesis
    proof (cases "bin_start row - bin_end (last cur) \<le> g")
      case True
      with ne Cons[of merged "cur @ [row]"] show ?thesis by simp
    next
      case False
      with ne Cons[of "merged @ [peak_of_row (max_row_of cur)]" "[row]"] show ?thesis
        by (simp add: merge_peak_group_nonempty)
    qed
  qed
qed

lemma find_peaks_groups:
  assumes "find_peaks binned_df q g = Inr ps"
  shows "ps = map (\<lambda>grp. peak_of_row (max_row_of grp)) (peak_groups (above_threshold binned_df q) g [])"
proof (cases "binned_df = []")
  case True
  with assms show ?thesis by (simp add: find_peaks_def above_threshold_def)
next
  case ne: False
  from assms ne obtain th where th: "np_percentile (map count binned_df) q = Inr th"
    by (auto simp: find_peaks_def split: sum.splits)
  let ?peaks = "filter (\<lambda>row. th \<le> real (count row)) binned_df"
  have at: "above_threshold binned_df q = ?peaks" using ne th by (simp add: above_threshold_def)
  show ?thesis
  proof (cases "?peaks = []")
    case True
    with assms ne th at show ?thesis by (simp add: find_peaks_def)
  next
    case False
    obtain m' c' where l: "peaks_loop ?peaks g [] [] = Inr (m', c')"
      and e: "m' @ map (\<lambda>grp. peak_of_row (max_row_of grp)) (if c' = [] then [] else [c']) =
              [] @ map (\<lambda>grp. peak_of_row (max_row_of grp)) (peak_groups ?peaks g [])"
      using peaks_loop_groups[of ?peaks g "[]" "[]"] by blast
    have "find_peaks binned_df q g = Inr (m' @ map (\<lambda>grp. peak_of_row (max_row_of grp)) (if c' = [] then [] else [c']))"
      using ne th False l by (simp add: find_peaks_def merge_peak_group_nonempty)
    with assms e at show ?thesis by simp
  qed
qed


text \<open>
  Claim C6. Every peak that \<open>find_peaks\<close> returns belongs to one group of the rows above
  the threshold, in the order in which the loop closes the groups, and takes its \<open>time\<close>,
  \<open>time_end\<close>, \<open>count\<close> and \<open>comment_rate\<close> from one member row of that group whose
  count is maximal in the group; the span of the group plays no part.
\<close>

theorem peak_from_max_member:
  assumes "find_peaks binned_df threshold_percentile min_gap_seconds = Inr ps"
  shows "list_all2 from_max_member
           (peak_groups (above_threshold binned_df threshold_percentile) min_gap_seconds []) ps"
proof -
  let ?G = "peak_groups (above_threshold binned_df threshold_percentile) min_gap_seconds []"
  have "ps = map (\<lambda>grp. peak_of_row (max_row_of grp)) ?G"
    using find_peaks_groups[OF assms] .
  moreover have "list_all2 from_max_member ?G (map (\<lambda>grp. peak_of_row (max_row_of grp)) ?G)"
    unfolding list_all2_map2 list_all2_same
  proof
    fix grp assume "grp \<in> set ?G"
    then have "grp \<noteq> []" by (rule peak_groups_nonempty)
    then show "from_max_member grp (peak_of_row (max_row_of grp))" by (rule from_max_member_peak)
  qed
  ultimately show ?thesis by simp
qed

lemma two_groups_percentile: "np_percentile [5, 7, 6] 0 = Inr 5"
  by (simp add: np_percentile_def)

lemma two_groups_peaks:
  "find_peaks
     [\<lparr>bin_start = 0, bin_end = 10, count = 5, comment_rate = 1 / 2\<rparr>,
      \<lparr>bin_start = 10, bin_end = 20, count = 7, comment_rate = 7 / 10\<rparr>,
      \<lparr>bin_start = 100, bin_end = 110, count = 6, comment_rate = 3 / 5\<rparr>] 0 30 =
     Inr [\<lparr>time = 10, time_end = 20, peak_cnt = 7, peak_rate = 7 / 10, percentile = 0\<rparr>,
          \<lparr>time = 100, time_end = 110, peak_cnt = 6, peak_rate = 3 / 5, percentile = 0\<rparr>]"
  using two_groups_percentile by (simp add: find_peaks_def merge_peak_group_def peak_of_row_def)

text \<open>
  The claim at work: three bins, all above the threshold. The first two form one group,
  which spans 0 to 20; its peak is the second bin alone, 10 to 20 with count 7.
\<close>

theorem peak_from_max_member_witness:
  "find_peaks
     [\<lparr>bin_start = 0, bin_end = 10, count = 5, comment_rate = 1 / 2\<rparr>,
      \<lparr>bin_start = 10, bin_end = 20, count = 7, comment_rate = 7 / 10\<rparr>,
      \<lparr>bin_start = 100, bin_end = 110, count = 6, comment_rate = 3 / 5\<rparr>] 0 30 =
     Inr [\<lparr>time = 10, time_end = 20, peak_cnt = 7, peak_rate = 7 / 10, percentile = 0\<rparr>,
          \<lparr>time = 100, time_end = 110, peak_cnt = 6, peak_rate = 3 / 5, percentile = 0\<rparr>] \<and>
   list_all2 from_max_member
     [[\<lparr>bin_start = 0, bin_end = 10, count = 5, comment_rate = 1 / 2\<rparr>,
       \<lparr>bin_start = 10, bin_end = 20, count = 7, comment_rate = 7 / 10\<rparr>],
      [\<lparr>bin_start = 100, bin_end = 110, count = 6, comment_rate = 3 / 5\<rparr>]]
     [\<lparr>time = 10, time_end = 20, peak_cnt = 7, peak_rate = 7 / 10, percentile = 0\<rparr>,
      \<lparr>time = 100, time_end = 110, peak_cnt = 6, peak_rate = 3 / 5, percentile = 0\<rparr>]"
proof -
  have g: "peak_groups
     (above_threshold
        [\<lparr>bin_start = 0, bin_end = 10, count = 5, comment_rate = 1 / 2\<rparr>,
         \<lparr>bin_start = 10, bin_end = 20, count = 7, comment_rate = 7 / 10\<rparr>,
         \<lparr>bin_start = 100, bin_end = 110, count = 6, comment_rate = 3 / 5\<rparr>] 0) 30 [] =
     [[\<lparr>bin_start = 0, bin_end = 10, count = 5, comment_rate = 1 / 2\<rparr>,
       \<lparr>bin_start = 10, bin_end = 20, count = 7, comment_rate = 7 / 10\<rparr>],
      [\<lparr>bin_start = 100, bin_end = 110, count = 6, comment_rate = 3 / 5\<rparr>]]"
    using two_groups_percentile by (simp add: above_threshold_def)
  show ?thesis
    using peak_from_max_member [OF two_groups_peaks] two_groups_peaks unfolding g by simp
qed

section \<open>generate_candidates: when it returns\<close>

lemma propagate_Inr_iff:
  "propagate m f = Inr y \<longleftrightarrow> (\<exists>x. m = Inr x \<and> f x = Inr y)"
  by (cases m) (simp_all add: propagate_def)

lemma propagate_Inr [simp]: "propagate (Inr x) f = f x"
  by (simp add: propagate_def)




lemma count_keywords_loop_total:
  assumes "\<forall>k\<in>set kws. rx k (\<not> cs) \<noteq> None" and "has_str_accessor (map message chat_df)"
  shows "\<exists>r. count_keywords_loop rx chat_df cs kws results = Inr r"
  using assms(1)
proof (induction kws arbitrary: results)
  case Nil
  show ?case by simp
next
  case (Cons k ks)
  then obtain pattern where p: "rx k (\<not> cs) = Some pattern" by auto
  from Cons have ih: "\<And>results. \<exists>r. count_keywords_loop rx chat_df cs ks results = Inr r" by simp
  show ?case using p ih assms(2) by (simp add: Let_def)
qed

lemma count_keywords_empty: "count_keywords rx [] kws cs = Inr []"
  by (simp add: count_keywords_def)

lemma count_keywords_total:
  assumes "\<forall>k\<in>set kws. rx k (\<not> cs) \<noteq> None"
    and "chat_df = [] \<or> has_str_accessor (map message chat_df)"
  shows "\<exists>r. count_keywords rx chat_df kws cs = Inr r"
proof (cases "chat_df = []")
  case True
  then show ?thesis by (simp add: count_keywords_empty)
next
  case False
  with assms(2) have a: "has_str_accessor (map message chat_df)" by simp
  obtain r where "count_keywords_loop rx chat_df cs kws [] = Inr r"
    using count_keywords_loop_total[where rx = rx and cs = cs and kws = kws, OF _ a] assms(1)
    by blast
  then show ?thesis by (simp add: count_keywords_def)
qed
















subsection \<open>Three calls that raise\<close>










section \<open>generate_candidates: the scores\<close>

lemma details_score_range: "0 \<le> details_score d \<and> details_score d \<le> 0.3"
  by (cases d) simp_all

lemma fold_details_score_ge: "s \<le> fold (\<lambda>d acc. acc + details_score d) ds s"
proof (induction ds arbitrary: s)
  case Nil
  show ?case by simp
next
  case (Cons d ds)
  have "s \<le> s + details_score d" using details_score_range[of d] by simp
  also have "\<dots> \<le> fold (\<lambda>d acc. acc + details_score d) ds (s + details_score d)" by (rule Cons)
  finally show ?case by simp
qed

lemma calculate_score_range: "0 \<le> calculate_score cand \<and> calculate_score cand \<le> 1"
proof -
  let ?s0 = "0 + min (real (length (reasons cand)) * 0.3) 0.6"
  have "0 \<le> ?s0" by simp
  also have "?s0 \<le> fold (\<lambda>d acc. acc + details_score d) (all_details cand) ?s0"
    by (rule fold_details_score_ge)
  finally show ?thesis by (simp add: calculate_score_def Let_def)
qed

lemma merge_loop_scores:
  assumes "merge_loop rest merged current = (merged', current')" "\<forall>c\<in>set merged. score_ok c"
  shows "\<forall>c\<in>set merged'. score_ok c"
  using assms
proof (induction rest arbitrary: merged current)
  case Nil
  then show ?case by simp
next
  case (Cons cand rest)
  show ?case
  proof (cases "0.5 < calculate_overlap current cand")
    case True
    with Cons.prems(1) have "merge_loop rest merged
          (current\<lparr>c_start := min (c_start current) (c_start cand),
                   c_end := max (c_end current) (c_end cand),
                   reasons := reasons current @ [reason cand],
                   all_details := all_details current @ [details cand]\<rparr>) = (merged', current')"
      by simp
    from Cons.IH[OF this Cons.prems(2)] show ?thesis .
  next
    case False
    have ok: "\<forall>c\<in>set (merged @ [current\<lparr>score := calculate_score current\<rparr>]). score_ok c"
      using Cons.prems(2) calculate_score_range[of current] by (simp add: score_ok_def)
    from False Cons.prems(1) have "merge_loop rest (merged @ [current\<lparr>score := calculate_score current\<rparr>])
          (cand\<lparr>reasons := [reason cand], all_details := [details cand]\<rparr>) = (merged', current')"
      by simp
    from Cons.IH[OF this ok] show ?thesis .
  qed
qed

lemma merge_and_score_scores:
  "\<forall>c\<in>set (merge_and_score_candidates candidates mn mx). score_ok c"
proof (cases "candidates = []")
  case True
  then show ?thesis by (simp add: merge_and_score_candidates_def)
next
  case False
  let ?s = "sort_key c_start candidates"
  let ?f = "(hd ?s)\<lparr>reasons := [reason (hd ?s)], all_details := [details (hd ?s)]\<rparr>"
  obtain merged current where l: "merge_loop (tl ?s) [] ?f = (merged, current)"
    by (cases "merge_loop (tl ?s) [] ?f")
  have m: "\<forall>c\<in>set merged. score_ok c" using merge_loop_scores[OF l] by simp
  have "\<forall>c\<in>set (merged @ [current\<lparr>score := calculate_score current\<rparr>]). score_ok c"
    using m calculate_score_range[of current] by (simp add: score_ok_def)
  then show ?thesis
    using False l by (auto simp: merge_and_score_candidates_def Let_def score_ok_def)
qed

lemma set_sort_by_score_desc: "set (sort_by_score_desc cs) = set cs"
  by (simp add: sort_by_score_desc_def)

lemma generate_candidates_shape:
  assumes "generate_candidates rx ca sa mn mx kws = Inr cs"
  shows "\<exists>candidates. cs = sort_by_score_desc (merge_and_score_candidates candidates mn mx)"
  using assms
  by (auto simp: generate_candidates_def Let_def propagate_Inr_iff)

text \<open>
  Claim C4. Every candidate that \<open>generate_candidates\<close> returns, whatever the tables, the
  duration bounds and the keywords, and however many details were merged into it, has a
  score between 0 and 1.
\<close>

theorem scores_in_unit_interval:
  assumes "generate_candidates rx comment_analyzer subtitle_analyzer min_duration max_duration
             reaction_keywords = Inr cs"
  shows "\<forall>c\<in>set cs. 0 \<le> score c \<and> score c \<le> 1"
proof -
  obtain candidates where
    "cs = sort_by_score_desc (merge_and_score_candidates candidates min_duration max_duration)"
    using generate_candidates_shape[OF assms] by blast
  then show ?thesis
    using merge_and_score_scores[of candidates min_duration max_duration]
    by (simp add: set_sort_by_score_desc score_ok_def)
qed

lemma one_subtitle_segment:
  "segment_by_silence
     [(0, \<lparr>sub_start = 0, sub_duration = 40, sub_end = 40, sub_text = [97]\<rparr>)] 2 30 =
   Inr [\<lparr>segment_id = 0, seg_start = 0, seg_end = 40, seg_duration = 40,
         subtitle_count = 1, seg_text = [97]\<rparr>]"
  by (simp add: segment_by_silence_def detect_silence_gaps_def Let_def ascii_def)

lemma one_subtitle_topics:
  "detect_topic_changes literal_engine
     [(0, \<lparr>sub_start = 0, sub_duration = 40, sub_end = 40, sub_text = [97]\<rparr>)] None = Inr []"
  by (simp add: detect_topic_changes_def default_topic_keywords_def literal_engine_def)

lemma one_subtitle_merge:
  "merge_and_score_candidates [new_candidate 0 40 reason_segment (Segment_details 0 1 [97])] 30 180 =
   [\<lparr>c_start = 0, c_end = 40, reason = reason_segment, score = 3 / 10,
     details = Segment_details 0 1 [97], reasons = [reason_segment],
     all_details = [Segment_details 0 1 [97]]\<rparr>]"
  by (simp add: merge_and_score_candidates_def new_candidate_def calculate_score_def join_reasons_def)

lemma one_subtitle_candidates:
  "generate_candidates literal_engine None
     (Some [(0, \<lparr>sub_start = 0, sub_duration = 40, sub_end = 40, sub_text = [97]\<rparr>)]) 30 180 None =
   Inr [\<lparr>c_start = 0, c_end = 40, reason = reason_segment, score = 3 / 10,
         details = Segment_details 0 1 [97], reasons = [reason_segment],
         all_details = [Segment_details 0 1 [97]]\<rparr>]"
  using one_subtitle_segment one_subtitle_topics one_subtitle_merge
  by (simp add: generate_candidates_def generate_from_subtitle_segments_def
      generate_from_topic_changes_def text_preview_def sort_by_score_desc_def)

text \<open>
  The claim at work: one subtitle of 40 seconds gives one candidate, with score 0.3.
\<close>

theorem scores_in_unit_interval_witness:
  "generate_candidates literal_engine None
     (Some [(0, \<lparr>sub_start = 0, sub_duration = 40, sub_end = 40, sub_text = [97]\<rparr>)]) 30 180 None =
   Inr [\<lparr>c_start = 0, c_end = 40, reason = reason_segment, score = 3 / 10,
         details = Segment_details 0 1 [97], reasons = [reason_segment],
         all_details = [Segment_details 0 1 [97]]\<rparr>] \<and>
   0 \<le> score \<lparr>c_start = 0, c_end = 40, reason = reason_segment, score = 3 / 10,
         details = Segment_details 0 1 [97], reasons = [reason_segment],
         all_details = [Segment_details 0 1 [97]]\<rparr> \<and>
   score \<lparr>c_start = 0, c_end = 40, reason = reason_segment, score = 3 / 10,
         details = Segment_details 0 1 [97], reasons = [reason_segment],
         all_details = [Segment_details 0 1 [97]]\<rparr> \<le> 1"
  using scores_in_unit_interval [OF one_subtitle_candidates] one_subtitle_candidates by simp

section \<open>generate_candidates: a minimal duration above the maximal one\<close>











section \<open>segment_by_silence: a stream without gaps\<close>

lemma no_gaps:
  assumes "\<forall>i. i + 1 < length df \<longrightarrow>
             sub_start (snd (df ! (i + 1))) - sub_end (snd (df ! i)) < g"
  shows "detect_silence_gaps df g = []"
proof -
  have "\<And>i. i < length df - 1 \<Longrightarrow> \<not> g \<le> sub_start (snd (df ! (i + 1))) - sub_end (snd (df ! i))"
  proof -
    fix i assume "i < length df - 1"
    then have "i + 1 < length df" by simp
    with assms show "\<not> g \<le> sub_start (snd (df ! (i + 1))) - sub_end (snd (df ! i))" by fastforce
  qed
  then show ?thesis by (simp add: detect_silence_gaps_def Let_def)
qed

lemma segment_loop_no_gaps:
  assumes "rest \<noteq> []" "k + length rest = length df"
    and "map fst rest = map int [k..<k + length rest]"
  shows "segment_loop df [] msd rest segs start subs =
         Inr (if msd \<le> sub_end (snd (last rest)) - start
          then segs @ [\<lparr>segment_id = length segs, seg_start = start,
                        seg_end = sub_end (snd (last rest)),
                        seg_duration = sub_end (snd (last rest)) - start,
                        subtitle_count = length (subs @ map snd rest),
                        seg_text = str_join (ascii '' '') (map sub_text (subs @ map snd rest))\<rparr>]
          else segs)"
  using assms
proof (induction rest arbitrary: k subs)
  case Nil
  then show ?case by simp
next
  case (Cons x rest)
  obtain i row where x: "x = (i, row)" by (cases x)
  have "k < Suc k + length rest" by simp
  then have "[k..<Suc k + length rest] = k # [Suc k..<Suc k + length rest]"
    by (rule upt_conv_Cons)
  then have u: "[k..<k + length (x # rest)] = k # [Suc k..<Suc k + length rest]"
    by simp
  have "map fst (x # rest) = int k # map int [Suc k..<Suc k + length rest]"
    using Cons.prems(3) unfolding u by simp
  then have i: "i = int k" and r: "map fst rest = map int [Suc k..<Suc k + length rest]"
    by (simp_all add: x)
  show ?case
  proof (cases "rest = []")
    case True
    then have "Suc k = length df" using Cons.prems(2) by simp
    then have "int k = int (length df) - 1" by linarith
    then have "i = int (length df) - 1" using i by simp
    then show ?thesis using True by (simp add: x Let_def)
  next
    case False
    then have "0 < length rest" by simp
    moreover have "Suc (k + length rest) = length df" using Cons.prems(2) by simp
    ultimately have "Suc k < length df" by linarith
    then have "int k < int (length df) - 1" by linarith
    then have k: "i < int (length df) - 1" "i \<noteq> int (length df) - 1" using i by auto
    have "segment_loop df [] msd (x # rest) segs start subs =
          segment_loop df [] msd rest segs start (subs @ [row])"
      using k by (simp add: x Let_def)
    also have "\<dots> = Inr (if msd \<le> sub_end (snd (last rest)) - start
          then segs @ [\<lparr>segment_id = length segs, seg_start = start,
                        seg_end = sub_end (snd (last rest)),
                        seg_duration = sub_end (snd (last rest)) - start,
                        subtitle_count = length ((subs @ [row]) @ map snd rest),
                        seg_text = str_join (ascii '' '')
                          (map sub_text ((subs @ [row]) @ map snd rest))\<rparr>]
          else segs)"
    proof (rule Cons.IH[OF False _ r])
      show "Suc k + length rest = length df" using Cons.prems(2) by simp
    qed
    finally show ?thesis using False by (simp add: x)
  qed
qed

text \<open>
  For a non-empty subtitle table with the default index in which no subtitle is followed
  by a gap of \<open>min_gap_seconds\<close> or more (whether or not the rows are sorted by start),
  \<open>segment_by_silence\<close> returns one segment, from the start of the first row to the end of
  the last row, when that span is at least \<open>min_segment_duration\<close> long, and no segment
  otherwise.
\<close>

lemma default_index_one_segment:
  assumes "subtitle_df \<noteq> []" and "default_index subtitle_df"
    and "\<forall>i. i + 1 < length subtitle_df \<longrightarrow>
           sub_start (snd (subtitle_df ! (i + 1))) - sub_end (snd (subtitle_df ! i)) <
           min_gap_seconds"
  shows "segment_by_silence subtitle_df min_gap_seconds min_segment_duration =
         Inr (if min_segment_duration \<le>
                 sub_end (snd (last subtitle_df)) - sub_start (snd (hd subtitle_df))
          then [\<lparr>segment_id = 0, seg_start = sub_start (snd (hd subtitle_df)),
                 seg_end = sub_end (snd (last subtitle_df)),
                 seg_duration =
                   sub_end (snd (last subtitle_df)) - sub_start (snd (hd subtitle_df)),
                 subtitle_count = length subtitle_df,
                 seg_text = str_join (ascii '' '') (map sub_text (map snd subtitle_df))\<rparr>]
          else [])"
proof -
  have h: "subtitle_df ! 0 = hd subtitle_df" using assms(1) by (simp add: hd_conv_nth)
  have d: "map fst subtitle_df = map int [0..<0 + length subtitle_df]"
    using assms(2) by (simp add: default_index_def)
  show ?thesis
    using assms(1) no_gaps[OF assms(3)]
      segment_loop_no_gaps[of subtitle_df 0 subtitle_df min_segment_duration "[]"
        "sub_start (snd (hd subtitle_df))" "[]", OF assms(1) _ d]
    by (simp add: segment_by_silence_def h)
qed

text \<open>
  Claim C7 fails on the code for a table without the default index. Two subtitles, from 0
  to 4 and from 5 to 9, sorted by start, with the index labels 1 and 0 (a table sorted
  without \<open>reset_index\<close>): no gap of 2 seconds is detected, but the loop takes the label 1
  of the first row for the last position, closes the segment there with a duration of 4,
  below the minimum of 5, and returns no segment, where the span from 0 to 9 is 9 seconds
  long. With the labels 0 and 1 the same rows give the segment from 0 to 9.
\<close>

theorem index_labels_lose_segment:
  "detect_silence_gaps
     [(1, \<lparr>sub_start = 0, sub_duration = 4, sub_end = 4, sub_text = [97]\<rparr>),
      (0, \<lparr>sub_start = 5, sub_duration = 4, sub_end = 9, sub_text = [98]\<rparr>)] 2 = [] \<and>
   segment_by_silence
     [(1, \<lparr>sub_start = 0, sub_duration = 4, sub_end = 4, sub_text = [97]\<rparr>),
      (0, \<lparr>sub_start = 5, sub_duration = 4, sub_end = 9, sub_text = [98]\<rparr>)] 2 5 = Inr [] \<and>
   segment_by_silence
     [(0, \<lparr>sub_start = 0, sub_duration = 4, sub_end = 4, sub_text = [97]\<rparr>),
      (1, \<lparr>sub_start = 5, sub_duration = 4, sub_end = 9, sub_text = [98]\<rparr>)] 2 5 =
     Inr [\<lparr>segment_id = 0, seg_start = 0, seg_end = 9, seg_duration = 9, subtitle_count = 2,
           seg_text = [97, 32, 98]\<rparr>]"
  by (simp add: segment_by_silence_def detect_silence_gaps_def Let_def ascii_def)

section \<open>count_keywords: rows without a message\<close>

lemma has_str_accessor_skip:
  "message r = None \<Longrightarrow>
   has_str_accessor (map message (xs @ r # ys)) = has_str_accessor (map message (xs @ ys))"
  by (simp add: has_str_accessor_def)

lemma count_keywords_loop_skip_nan:
  assumes "message r = None"
  shows "count_keywords_loop rx (xs @ r # ys) cs kws results =
         count_keywords_loop rx (xs @ ys) cs kws results"
proof (induction kws arbitrary: results)
  case Nil
  show ?case by simp
next
  case (Cons k ks)
  have nr: "\<And>p. \<not> str_contains p (message r)"
    using assms by (simp add: str_contains_def)
  show ?case
    using has_str_accessor_skip[OF assms, of xs ys]
    by (simp add: nr Cons Let_def split: option.splits)
qed

lemma count_keywords_loop_messages:
  assumes "count_keywords_loop rx df cs kws results = Inr out"
    and "\<forall>h\<in>set (concat results). kw_message h \<noteq> None"
  shows "\<forall>h\<in>set (concat out). kw_message h \<noteq> None"
  using assms
proof (induction kws arbitrary: results)
  case Nil
  then show ?case by simp
next
  case (Cons k ks)
  from Cons.prems(1) obtain p where p: "rx k (\<not> cs) = Some p"
    by (auto split: option.splits)
  from Cons.prems(1) p have a: "has_str_accessor (map message df)"
    by (auto split: if_splits)
  let ?m = "filter (\<lambda>row. str_contains p (message row)) df"
  let ?new = "map (\<lambda>row. \<lparr>keyword = k, kw_timestamp_sec = timestamp_sec row, kw_message = message row\<rparr>) ?m"
  have n: "\<forall>h\<in>set ?new. kw_message h \<noteq> None"
    by (auto simp: str_contains_def split: option.splits)
  show ?case
  proof (cases "?m = []")
    case True
    with Cons.prems(1) p a have "count_keywords_loop rx df cs ks results = Inr out" by simp
    from Cons.IH[OF this Cons.prems(2)] show ?thesis .
  next
    case False
    with Cons.prems(1) p a have l: "count_keywords_loop rx df cs ks (results @ [?new]) = Inr out"
      by (simp add: Let_def)
    have "\<forall>h\<in>set (concat (results @ [?new])). kw_message h \<noteq> None"
      using Cons.prems(2) n by auto
    from Cons.IH[OF l this] show ?thesis .
  qed
qed

text \<open>
  A row whose message is missing matches no keyword: unless it is the only row,
  \<open>count_keywords\<close> gives with it the very result it gives without it; no row of a result
  has a missing message; and with the row in the table \<open>count_keywords\<close> returns a table
  whenever \<open>re.compile\<close> accepts every keyword and some other row has a message that is a
  string.
\<close>

lemma nan_message_skipped:
  assumes "message r = None"
  shows "(xs @ ys \<noteq> [] \<longrightarrow>
            count_keywords rx (xs @ r # ys) kws case_sensitive =
            count_keywords rx (xs @ ys) kws case_sensitive) \<and>
         (\<forall>hits. count_keywords rx (xs @ r # ys) kws case_sensitive = Inr hits \<longrightarrow>
            (\<forall>h\<in>set hits. kw_message h \<noteq> None)) \<and>
         ((\<forall>k\<in>set kws. rx k (\<not> case_sensitive) \<noteq> None) \<and>
          has_str_accessor (map message (xs @ ys)) \<longrightarrow>
            (\<exists>hits. count_keywords rx (xs @ r # ys) kws case_sensitive = Inr hits))"
proof (intro conjI impI allI)
  assume "xs @ ys \<noteq> []"
  then show "count_keywords rx (xs @ r # ys) kws case_sensitive =
             count_keywords rx (xs @ ys) kws case_sensitive"
    by (auto simp: count_keywords_def count_keywords_loop_skip_nan[OF assms])
next
  fix hits assume "count_keywords rx (xs @ r # ys) kws case_sensitive = Inr hits"
  then obtain out where o: "count_keywords_loop rx (xs @ r # ys) case_sensitive kws [] = Inr out"
    and h: "hits = concat out"
    by (auto simp: count_keywords_def propagate_def split: sum.splits)
  show "\<forall>h\<in>set hits. kw_message h \<noteq> None"
    using count_keywords_loop_messages[OF o] h by simp
next
  assume a: "(\<forall>k\<in>set kws. rx k (\<not> case_sensitive) \<noteq> None) \<and>
          has_str_accessor (map message (xs @ ys))"
  then have "has_str_accessor (map message (xs @ r # ys))"
    using has_str_accessor_skip[OF assms, of xs ys] by simp
  then show "\<exists>hits. count_keywords rx (xs @ r # ys) kws case_sensitive = Inr hits"
    using count_keywords_total[where rx = rx and cs = case_sensitive and kws = kws
        and chat_df = "xs @ r # ys"] a by blast
qed

text \<open>
  Claim C10 fails on the code when no row of the table has a message. One comment without
  a message, searched for "w": the message column is a float64 column of NaN, \<open>.str\<close>
  raises \<open>AttributeError\<close>, and the keyword count of the batch is aborted, where the claim
  has the row match nothing and the call return an empty table. Next to a comment "ww" the
  same row is passed over and the call returns the one match.
\<close>

theorem all_messages_missing_raises:
  "count_keywords literal_engine
     [\<lparr>timestamp_sec = 5, author = [118], message = None\<rparr>] [[119]] False =
     Inl AttributeError \<and>
   count_keywords literal_engine
     [\<lparr>timestamp_sec = 3, author = [117], message = Some [119, 119]\<rparr>,
      \<lparr>timestamp_sec = 5, author = [118], message = None\<rparr>] [[119]] False =
     Inr [\<lparr>keyword = [119], kw_timestamp_sec = 3, kw_message = Some [119, 119]\<rparr>]"
  by (simp add: count_keywords_def literal_engine_def str_contains_def has_str_accessor_def
      propagate_def)

section \<open>The tables of the caller\<close>

lemma bin_method_result:
  "fst (bin_comments_by_time_method self bs h) =
   bin_comments_by_time (chat_rows (chat_frames h ! self_chat_df self)) bs"
  by (simp add: bin_comments_by_time_method_def bin_comments_by_time_def Let_def
      split: sum.splits)

lemma bin_method_frame:
  assumes "a \<noteq> self_chat_df self"
  shows "chat_frames (snd (bin_comments_by_time_method self bs h)) ! a = chat_frames h ! a"
    and "length (chat_frames (snd (bin_comments_by_time_method self bs h))) = length (chat_frames h)"
    and "subtitle_frames (snd (bin_comments_by_time_method self bs h)) = subtitle_frames h"
  using assms
  by (simp_all add: bin_comments_by_time_method_def Let_def split: sum.splits)

lemma comment_call_frame:
  assumes "a \<noteq> self_chat_df self"
  shows "chat_frames (comment_call_heap self call h) ! a = chat_frames h ! a"
    and "subtitle_frames (comment_call_heap self call h) = subtitle_frames h"
  using bin_method_frame[OF assms] by (cases call; simp)+

lemma comment_calls_frame:
  assumes "a \<noteq> self_chat_df self"
  shows "chat_frames (fold (comment_call_heap self) calls h) ! a = chat_frames h ! a \<and>
         subtitle_frames (fold (comment_call_heap self) calls h) = subtitle_frames h"
proof (induction calls arbitrary: h)
  case Nil
  show ?case by simp
next
  case (Cons call calls)
  show ?case using Cons[of "comment_call_heap self call h"] comment_call_frame[OF assms] by simp
qed

lemma subtitle_calls_frame: "fold (subtitle_call_heap self) calls h = h"
  by (induction calls) (simp_all add: subtitle_call_heap_def)

text \<open>
  Claim C9. An analyser is made from a table of the caller and holds a copy of it. No
  sequence of calls on a comment analyser changes the chat table or the subtitle table
  that the caller passed to the constructors, although \<open>bin_comments_by_time\<close> assigns
  the column \<open>bin\<close> of the analyser's own copy; and the calls on a subtitle analyser
  change no table at all.
\<close>

theorem callers_tables_unchanged:
  assumes "arg < length (chat_frames h)"
    and "CommentAnalyzer_init arg h = (comments, h1)"
    and "sub_arg < length (subtitle_frames h)"
    and "SubtitleAnalyzer_init sub_arg h1 = (subtitles, h2)"
  shows "chat_frames (fold (comment_call_heap comments) calls h2) ! arg = chat_frames h ! arg \<and>
         subtitle_frames (fold (comment_call_heap comments) calls h2) ! sub_arg =
           subtitle_frames h ! sub_arg \<and>
         fold (subtitle_call_heap subtitles) sub_calls
           (fold (comment_call_heap comments) calls h2) =
           fold (comment_call_heap comments) calls h2"
proof -
  have c: "self_chat_df comments = length (chat_frames h)"
    and h1: "h1 = h\<lparr>chat_frames := chat_frames h @ [chat_frames h ! arg]\<rparr>"
    using assms(2) by (auto simp: CommentAnalyzer_init_def)
  have h2: "h2 = h1\<lparr>subtitle_frames := subtitle_frames h1 @ [subtitle_frames h1 ! sub_arg]\<rparr>"
    using assms(4) by (auto simp: SubtitleAnalyzer_init_def)
  have ne: "arg \<noteq> self_chat_df comments" using assms(1) c by simp
  have "chat_frames h2 ! arg = chat_frames h ! arg"
    using assms(1) by (simp add: h1 h2 nth_append)
  moreover have "subtitle_frames h2 ! sub_arg = subtitle_frames h ! sub_arg"
    using assms(3) by (simp add: h1 h2 nth_append)
  ultimately show ?thesis
    using comment_calls_frame[OF ne, of calls h2] subtitle_calls_frame by simp
qed

lemma example_edges: "bin_edges [3, 15] 10 = Inr [3, 13, 23]"
  by (simp add: bin_edges_def np_arange_def upt_rec numeral_eq_Suc)

lemma example_labels: "pd_cut [3, 15] [3, 13, 23] = Inr [Some 0, Some 1]"
  by (simp add: pd_cut_def cut_label_def searchsorted_left_def)

text \<open>
  The claim at work on the example heap: after \<open>bin_comments_by_time(10)\<close> and
  \<open>get_statistics()\<close> the copy that the analyser holds has its column \<open>bin\<close>, and the
  table of the caller has none.
\<close>

theorem callers_tables_unchanged_witness:
  "(0::nat) < length (chat_frames example_heap) \<and> (0::nat) < length (subtitle_frames example_heap) \<and>
   (let (comments, h1) = CommentAnalyzer_init 0 example_heap;
        (subtitles, h2) = SubtitleAnalyzer_init 0 h1;
        h3 = fold (comment_call_heap comments) [Bin_comments_by_time 10, Get_statistics] h2
    in chat_frames h3 ! 0 = chat_frames example_heap ! 0 \<and>
       subtitle_frames h3 ! 0 = subtitle_frames example_heap ! 0 \<and>
       fold (subtitle_call_heap subtitles) [Segment_by_silence 2 10] h3 = h3 \<and>
       bin_column (chat_frames example_heap ! 0) = None \<and>
       bin_column (chat_frames h3 ! self_chat_df comments) = Some [Some 0, Some 1])"
proof -
  obtain comments h1 where i1: "CommentAnalyzer_init 0 example_heap = (comments, h1)"
    by (cases "CommentAnalyzer_init 0 example_heap")
  obtain subtitles h2 where i2: "SubtitleAnalyzer_init 0 h1 = (subtitles, h2)"
    by (cases "SubtitleAnalyzer_init 0 h1")
  have l: "(0::nat) < length (chat_frames example_heap)" "(0::nat) < length (subtitle_frames example_heap)"
    by (simp_all add: example_heap_def)
  note u = callers_tables_unchanged [OF l(1) i1 l(2) i2,
      of "[Bin_comments_by_time 10, Get_statistics]" "[Segment_by_silence 2 10]"]
  have c: "comments = \<lparr>self_chat_df = 1\<rparr>" and h1: "h1 = example_heap\<lparr>chat_frames := chat_frames example_heap @ [chat_frames example_heap ! 0]\<rparr>"
    using i1 by (auto simp: CommentAnalyzer_init_def example_heap_def)
  have h2: "h2 = h1\<lparr>subtitle_frames := subtitle_frames h1 @ [subtitle_frames h1 ! 0]\<rparr>"
    using i2 by (auto simp: SubtitleAnalyzer_init_def)
  have b: "bin_column (chat_frames (fold (comment_call_heap comments)
             [Bin_comments_by_time 10, Get_statistics] h2) ! self_chat_df comments) =
           Some [Some 0, Some 1]"
    using example_edges example_labels
    by (simp add: c h1 h2 example_heap_def bin_comments_by_time_method_def)
  have n: "bin_column (chat_frames example_heap ! 0) = None" by (simp add: example_heap_def)
  show ?thesis using u b n l by (simp add: i1 i2)
qed

end
